theory Spec2Isabelle
  imports Complex_Main
begin

section \<open>Record store\<close>

text \<open>
  The tables of \<^verbatim>\<open>init_database\<close> (database.py). A calendar date is its proleptic
  Gregorian ordinal, the number \<^verbatim>\<open>datetime.date.toordinal\<close> gives, so that
  \<^verbatim>\<open>d - timedelta(days=1)\<close> is \<open>d - 1\<close> and SQL's date order is the order of \<open>int\<close>.
  Python floats and the SQL types REAL, NUMERIC and DOUBLE PRECISION are idealised as \<open>real\<close>:
  rounding of the binary representation is not modelled, except in the pace display, where
  it decides the digits shown.
\<close>

type_synonym date = int

record exercise_row =
  ex_id :: int
  ex_name :: string
  ex_category :: "string option"

record workout_row =
  w_id :: int
  workout_date :: date
  w_notes :: "string option"

record set_row =
  s_id :: int
  s_workout_id :: int
  s_exercise_id :: int
  set_number :: int
  reps :: int
  weight :: real
  s_created_at :: int

text \<open>
  The free-text \<^verbatim>\<open>context\<close> column holds an f-string of the caller; the two shapes the
  strength flow writes are kept as constructors carrying the formatted values
  (\<^verbatim>\<open>f"{reps} reps"\<close> and \<^verbatim>\<open>f"{weight} lbs x {reps}"\<close>).
\<close>

datatype pr_context = RepsContext int | WeightRepsContext real int

record pr_row =
  pr_id :: int
  pr_exercise_id :: int
  pr_type :: string
  pr_value :: real
  achieved_date :: date
  pr_context :: "pr_context option"

text \<open>The store: the four tables and the two SERIAL sequences the modelled inserts draw from.\<close>

record db =
  exercises :: "exercise_row list"
  workouts :: "workout_row list"
  sets :: "set_row list"
  personal_records :: "pr_row list"
  next_set_id :: int
  next_pr_id :: int

datatype error =
    TypeError
  | ZeroDivisionError
  | SqlDivisionByZero
  | ForeignKeyViolation
  | StorageError

section \<open>SQL and Python helpers\<close>

text \<open>SQL \<^verbatim>\<open>MAX\<close> and \<^verbatim>\<open>MIN\<close>: NULL over no rows.\<close>

fun sql_max :: "'a::linorder list \<Rightarrow> 'a option" where
  "sql_max [] = None"
| "sql_max (x # xs) = Some (fold max xs x)"

fun sql_min :: "'a::linorder list \<Rightarrow> 'a option" where
  "sql_min [] = None"
| "sql_min (x # xs) = Some (fold min xs x)"

text \<open>Python's \<^verbatim>\<open>v if result and v else d\<close> on a numeric column: None and 0 are both falsy.\<close>

definition truthy_or :: "'a::zero option \<Rightarrow> 'a \<Rightarrow> 'a" where
  "truthy_or v d = (case v of None \<Rightarrow> d | Some x \<Rightarrow> if x = 0 then d else x)"

text \<open>Python's \<^verbatim>\<open>int(x)\<close> on a float: truncation towards zero.\<close>

definition py_int :: "real \<Rightarrow> int" where
  "py_int x = (if 0 \<le> x then \<lfloor>x\<rfloor> else \<lceil>x\<rceil>)"

text \<open>
  IEEE 754 binary64 arithmetic, for the one place where the rounding of a float operation
  decides what is shown, the pace display. \<open>fl x\<close> is the double nearest to \<open>x\<close>, ties
  to the even significand, for \<open>\<bar>x\<bar> < 2 ^ 1024\<close>: \<open>expo\<close> is the binary exponent
  (not below -1022, where the subnormal numbers start), \<open>ulp\<close> the spacing of the doubles
  of that exponent (52 fraction bits). A real \<open>x\<close> is a double when \<open>fl x = x\<close>.
\<close>

fun binade_up :: "nat \<Rightarrow> real \<Rightarrow> int" where
  "binade_up n x = (if n = 0 \<or> x < 2 then 0 else binade_up (n - 1) (x / 2) + 1)"

fun binade_down :: "nat \<Rightarrow> real \<Rightarrow> int" where
  "binade_down n x = (if n = 0 \<or> 1 \<le> x then 0 else binade_down (n - 1) (x * 2) - 1)"

declare binade_up.simps [simp del] binade_down.simps [simp del]

definition expo :: "real \<Rightarrow> int" where
  "expo x = (if 1 \<le> x then binade_up 1024 x else binade_down 1022 x)"

definition ulp :: "int \<Rightarrow> real" where
  "ulp e = (if 52 \<le> e then 2 ^ nat (e - 52) else 1 / 2 ^ nat (52 - e))"

definition round_even :: "real \<Rightarrow> int" where
  "round_even m =
     (let r = \<lfloor>m\<rfloor>; d = m - of_int r
      in if d < 1 / 2 then r else if 1 / 2 < d then r + 1 else if even r then r else r + 1)"

definition fl :: "real \<Rightarrow> real" where
  "fl x = (if x = 0 then 0
          else sgn x * (of_int (round_even (\<bar>x\<bar> / ulp (expo \<bar>x\<bar>))) * ulp (expo \<bar>x\<bar>)))"

text \<open>
  Python's \<^verbatim>\<open>x % 1\<close> on a float (\<^verbatim>\<open>float_rem\<close>): C's \<^verbatim>\<open>fmod(x, 1.0)\<close>, which is exact and
  has the sign of \<open>x\<close>; a negative remainder is then moved above zero by a float addition
  of 1.
\<close>

definition py_mod1 :: "real \<Rightarrow> real" where
  "py_mod1 x =
     (if 0 \<le> x then x - of_int \<lfloor>x\<rfloor>
      else let m = x - of_int \<lceil>x\<rceil> in if m = 0 then 0 else fl (m + 1))"

text \<open>Decimal rendering of an integer, \<^verbatim>\<open>f"{n}"\<close>, and the format \<^verbatim>\<open>:02d\<close>.\<close>

definition digit_char :: "nat \<Rightarrow> char" where
  "digit_char n = ''0123456789'' ! n"

fun str_nat :: "nat \<Rightarrow> string" where
  "str_nat n = (if n < 10 then [digit_char n] else str_nat (n div 10) @ [digit_char (n mod 10)])"

declare str_nat.simps [simp del]

definition str_int :: "int \<Rightarrow> string" where
  "str_int i = (if i < 0 then CHR ''-'' # str_nat (nat (- i)) else str_nat (nat i))"

definition fmt_02d :: "int \<Rightarrow> string" where
  "fmt_02d i = (let s = str_int i in replicate (2 - length s) CHR ''0'' @ s)"

text \<open>
  \<^verbatim>\<open>datetime.date(y, m, d).toordinal()\<close> of the Python standard library, for a valid
  calendar date (\<open>1 \<le> m \<le> 12\<close>); it only serves to write dates in examples.
\<close>

definition is_leap :: "int \<Rightarrow> bool" where
  "is_leap y = (y mod 4 = 0 \<and> (y mod 100 \<noteq> 0 \<or> y mod 400 = 0))"

definition days_before_year :: "int \<Rightarrow> int" where
  "days_before_year y = (y - 1) * 365 + (y - 1) div 4 - (y - 1) div 100 + (y - 1) div 400"

definition days_before_month :: "int \<Rightarrow> int \<Rightarrow> int" where
  "days_before_month y m =
     [0, 31, 59, 90, 120, 151, 181, 212, 243, 273, 304, 334] ! nat (m - 1)
       + (if m > 2 \<and> is_leap y then 1 else 0)"

definition ymd :: "int \<Rightarrow> int \<Rightarrow> int \<Rightarrow> date" where
  "ymd y m dd = days_before_year y + days_before_month y m + dd"

text \<open>
  The rows of \<^verbatim>\<open>sets s JOIN workouts w ON s.workout_id = w.id
  WHERE s.exercise_id = %s AND w.workout_date < %s\<close>, the history every PR check reads.
\<close>

definition prior_sets :: "db \<Rightarrow> int \<Rightarrow> date \<Rightarrow> set_row list" where
  "prior_sets d exercise_id before_date =
     [s. s \<leftarrow> sets d, w \<leftarrow> workouts d,
         s_workout_id s = w_id w \<and> s_exercise_id s = exercise_id \<and> workout_date w < before_date]"

text \<open>The sets of one \<open>(workout_id, exercise_id)\<close> pair, \<^verbatim>\<open>WHERE workout_id = %s AND exercise_id = %s\<close>.\<close>

definition pair_sets :: "db \<Rightarrow> int \<Rightarrow> int \<Rightarrow> set_row list" where
  "pair_sets d workout_id exercise_id =
     filter (\<lambda>s. s_workout_id s = workout_id \<and> s_exercise_id s = exercise_id) (sets d)"

section \<open>Metric calculators\<close>

text \<open>app.py, \<^verbatim>\<open>calculate_estimated_1rm\<close>.\<close>

definition calculate_estimated_1rm :: "real \<Rightarrow> int \<Rightarrow> real" where
  "calculate_estimated_1rm w r = (if r = 1 then w else w * (1 + real_of_int r / 30))"

text \<open>
  app.py, the pace display \<^verbatim>\<open>f"{int(pace)}:{int((pace % 1) * 60):02d}"\<close>, written the same
  way at every place a pace is shown; \<open>pace\<close> is a double, and the product with 60 is a
  float multiplication. Where the pace comes from the form, it is the float quotient
  \<^verbatim>\<open>time_minutes / miles\<close>, shown only when \<^verbatim>\<open>miles > 0\<close>.
\<close>

definition format_pace :: "real \<Rightarrow> string" where
  "format_pace pace = str_int (py_int pace) @ '':'' @ fmt_02d (py_int (fl (py_mod1 pace * 60)))"

definition pace_display :: "real \<Rightarrow> real \<Rightarrow> string option" where
  "pace_display miles time_minutes =
     (if miles > 0 then Some (format_pace (fl (time_minutes / miles))) else None)"

text \<open>utils.py, \<^verbatim>\<open>validate_set_input\<close>.\<close>

definition validate_set_input :: "int \<Rightarrow> real \<Rightarrow> bool \<times> string" where
  "validate_set_input r w =
     (if r \<le> 0 then (False, ''Reps must be positive'')
      else if w < 0 then (False, ''Weight cannot be negative'')
      else if r > 100 then (False, ''Reps seems too high (>100)'')
      else if w > 1000 then (False, ''Weight seems too high (>1000)'')
      else (True, []))"

section \<open>Commands on sets and workouts\<close>

text \<open>
  A command returns the value of the Python function and the new store, or the exception
  it raises; on an exception \<^verbatim>\<open>get_db\<close> rolls back, so no store comes with \<open>Inl\<close>.
  The foreign keys of the schema are checked where a row is inserted.
\<close>

text \<open>database.py, \<^verbatim>\<open>add_set\<close>: the first query, \<^verbatim>\<open>COALESCE(MAX(set_number), 0) + 1\<close>.\<close>

definition next_set_number :: "db \<Rightarrow> int \<Rightarrow> int \<Rightarrow> int" where
  "next_set_number d workout_id exercise_id =
     (case sql_max (map set_number (pair_sets d workout_id exercise_id)) of
        None \<Rightarrow> 0 | Some m \<Rightarrow> m) + 1"

text \<open>
  database.py, \<^verbatim>\<open>add_set\<close>; \<open>now\<close> is \<^verbatim>\<open>CURRENT_TIMESTAMP\<close>, the default of
  \<^verbatim>\<open>created_at\<close>.
\<close>

definition add_set :: "db \<Rightarrow> int \<Rightarrow> int \<Rightarrow> int \<Rightarrow> int \<Rightarrow> real \<Rightarrow> error + (int \<times> db)" where
  "add_set d now workout_id exercise_id r w =
     (let set_number' = next_set_number d workout_id exercise_id
      in if workout_id \<in> set (map w_id (workouts d)) \<and> exercise_id \<in> set (map ex_id (exercises d))
         then Inr (next_set_id d,
                   d\<lparr>sets := sets d @
                        [\<lparr>s_id = next_set_id d, s_workout_id = workout_id,
                          s_exercise_id = exercise_id, set_number = set_number',
                          reps = r, weight = w, s_created_at = now\<rparr>],
                     next_set_id := next_set_id d + 1\<rparr>)
         else Inl ForeignKeyViolation)"

text \<open>database.py, \<^verbatim>\<open>delete_set\<close>: a DELETE that matches no row is not an error.\<close>

definition delete_set :: "db \<Rightarrow> int \<Rightarrow> error + (unit \<times> db)" where
  "delete_set d set_id = Inr ((), d\<lparr>sets := filter (\<lambda>s. s_id s \<noteq> set_id) (sets d)\<rparr>)"

text \<open>database.py, \<^verbatim>\<open>delete_workout\<close>; the sets go with a deleted workout row (ON DELETE CASCADE).\<close>

definition delete_workout :: "db \<Rightarrow> int \<Rightarrow> error + (unit \<times> db)" where
  "delete_workout d workout_id =
     (if workout_id \<in> set (map w_id (workouts d))
      then Inr ((), d\<lparr>workouts := filter (\<lambda>w. w_id w \<noteq> workout_id) (workouts d),
                       sets := filter (\<lambda>s. s_workout_id s \<noteq> workout_id) (sets d)\<rparr>)
      else Inr ((), d))"

record workout_details =
  wd_workout :: workout_row
  wd_sets :: "(set_row \<times> string \<times> string option) list"

text \<open>
  database.py, \<^verbatim>\<open>get_workout_details\<close>: \<^verbatim>\<open>dict(cursor.fetchone())\<close> is \<^verbatim>\<open>dict(None)\<close>, a
  TypeError, when no workout has the id. Rows of equal \<^verbatim>\<open>created_at\<close> keep table order.
\<close>

definition get_workout_details :: "db \<Rightarrow> int \<Rightarrow> error + workout_details" where
  "get_workout_details d workout_id =
     (case filter (\<lambda>w. w_id w = workout_id) (workouts d) of
        [] \<Rightarrow> Inl TypeError
      | w # _ \<Rightarrow>
          Inr \<lparr>wd_workout = w,
               wd_sets = sort_key (\<lambda>(s, _). s_created_at s)
                 [(s, ex_name e, ex_category e). s \<leftarrow> sets d, e \<leftarrow> exercises d,
                    s_exercise_id s = ex_id e \<and> s_workout_id s = workout_id]\<rparr>)"

text \<open>
  database.py, \<^verbatim>\<open>update_last_set_hr\<close>. The subquery \<^verbatim>\<open>ORDER BY created_at DESC LIMIT 1\<close>
  picks a row of greatest \<^verbatim>\<open>created_at\<close>; among equal timestamps SQL leaves the choice
  open, and the model takes the first in table order.
\<close>

definition last_set :: "db \<Rightarrow> int \<Rightarrow> int \<Rightarrow> set_row option" where
  "last_set d workout_id exercise_id =
     fold (\<lambda>s best. case best of
                       None \<Rightarrow> Some s
                     | Some b \<Rightarrow> if s_created_at b < s_created_at s then Some s else Some b)
          (pair_sets d workout_id exercise_id) None"

definition update_last_set_hr :: "db \<Rightarrow> int \<Rightarrow> int \<Rightarrow> int \<Rightarrow> error + (unit \<times> db)" where
  "update_last_set_hr d workout_id exercise_id heart_rate =
     (case last_set d workout_id exercise_id of
        None \<Rightarrow> Inr ((), d)
      | Some t \<Rightarrow>
          Inr ((), d\<lparr>sets := map (\<lambda>s. if s_id s = s_id t then s\<lparr>set_number := heart_rate\<rparr> else s)
                                (sets d)\<rparr>))"

text \<open>database.py, \<^verbatim>\<open>log_pr\<close>.\<close>

definition log_pr ::
  "db \<Rightarrow> int \<Rightarrow> string \<Rightarrow> real \<Rightarrow> date \<Rightarrow> pr_context option \<Rightarrow> error + (unit \<times> db)" where
  "log_pr d exercise_id pr_type' v achieved ctx =
     (if exercise_id \<in> set (map ex_id (exercises d))
      then Inr ((), d\<lparr>personal_records := personal_records d @
                        [\<lparr>pr_id = next_pr_id d, pr_exercise_id = exercise_id, pr_type = pr_type',
                          pr_value = v, achieved_date = achieved, pr_context = ctx\<rparr>],
                      next_pr_id := next_pr_id d + 1\<rparr>)
      else Inl ForeignKeyViolation)"

section \<open>PR evaluator\<close>

record pr_check =
  is_weight_pr :: bool
  previous_max :: real
  is_1rm_pr :: bool
  previous_1rm :: real

text \<open>database.py, \<^verbatim>\<open>check_if_pr\<close>.\<close>

definition check_if_pr :: "db \<Rightarrow> int \<Rightarrow> real \<Rightarrow> int \<Rightarrow> date \<Rightarrow> pr_check" where
  "check_if_pr d exercise_id w r workout_date' =
     (let prev_max = truthy_or (sql_max (map weight (prior_sets d exercise_id workout_date'))) 0;
          is_weight_pr' = (w > prev_max);
          current_1rm = (if r > 1 then w * (1 + real_of_int r / 30) else w);
          prev_1rm = truthy_or (sql_max (map (\<lambda>s. weight s * (1 + real_of_int (reps s) / 30))
                                  (prior_sets d exercise_id workout_date'))) 0;
          is_1rm_pr' = (current_1rm > prev_1rm)
      in \<lparr>is_weight_pr = is_weight_pr', previous_max = prev_max,
          is_1rm_pr = is_1rm_pr', previous_1rm = prev_1rm\<rparr>)"

record running_pr_check =
  is_pace_pr :: bool
  previous_best_pace :: real
  is_distance_pr :: bool
  previous_max_distance :: real

text \<open>
  database.py, \<^verbatim>\<open>check_running_pr\<close>. \<^verbatim>\<open>time_minutes / miles\<close> raises ZeroDivisionError in
  Python when \<^verbatim>\<open>miles\<close> is 0, and PostgreSQL raises division by zero when a prior row has
  \<^verbatim>\<open>reps = 0\<close>.
\<close>

definition check_running_pr :: "db \<Rightarrow> int \<Rightarrow> real \<Rightarrow> real \<Rightarrow> date \<Rightarrow> error + running_pr_check" where
  "check_running_pr d exercise_id miles time_minutes workout_date' =
     (if miles = 0 then Inl ZeroDivisionError
      else
        let current_pace = time_minutes / miles;
            prior = prior_sets d exercise_id workout_date'
        in if list_ex (\<lambda>s. reps s = 0) prior then Inl SqlDivisionByZero
           else
             let prev_best_pace =
                   truthy_or (sql_min (map (\<lambda>s. weight s / (real_of_int (reps s) / 10)) prior)) 999;
                 is_pace_pr' = (current_pace < prev_best_pace);
                 prev_max_distance =
                   truthy_or (sql_max (map (\<lambda>s. real_of_int (reps s) / 10) prior)) 0;
                 is_distance_pr' = (miles > prev_max_distance)
             in Inr \<lparr>is_pace_pr = is_pace_pr',
                     previous_best_pace = (if prev_best_pace \<noteq> 999 then prev_best_pace else 0),
                     is_distance_pr = is_distance_pr',
                     previous_max_distance = prev_max_distance\<rparr>)"

section \<open>Aggregation engine\<close>

text \<open>
  database.py, \<^verbatim>\<open>get_workout_streak\<close>: the distinct dates of workouts that have a set,
  newest first, and the loop over \<^verbatim>\<open>dates[1:]\<close>; \<open>today\<close> is \<^verbatim>\<open>datetime.now().date()\<close>.
\<close>

definition nonempty_workout_dates :: "db \<Rightarrow> date list" where
  "nonempty_workout_dates d =
     rev (sort (remdups
       [workout_date w. w \<leftarrow> workouts d, list_ex (\<lambda>s. s_workout_id s = w_id w) (sets d)]))"

fun count_streak :: "date list \<Rightarrow> date \<Rightarrow> int \<Rightarrow> int" where
  "count_streak [] expected_date streak = streak"
| "count_streak (dt # dates) expected_date streak =
     (if dt = expected_date then count_streak dates (dt - 1) (streak + 1) else streak)"

definition get_workout_streak :: "db \<Rightarrow> date \<Rightarrow> int" where
  "get_workout_streak d today =
     (case nonempty_workout_dates d of
        [] \<Rightarrow> 0
      | most_recent # rest \<Rightarrow>
          let yesterday = today - 1
          in if most_recent \<noteq> today \<and> most_recent \<noteq> yesterday then 0
             else count_streak rest (most_recent - 1) 1)"

section \<open>Orchestration: the submit flows of app.py\<close>

text \<open>
  database.py, \<^verbatim>\<open>get_db\<close>: every function of database.py opens its own connection and
  commits when its body returns; when the body (or the connection) raises, it rolls back
  and re-raises. \<open>fails\<close> says that the storage layer raises during this transaction.
\<close>

definition get_db :: "bool \<Rightarrow> (db \<Rightarrow> error + ('a \<times> db)) \<Rightarrow> db \<Rightarrow> (error + 'a) \<times> db" where
  "get_db fails body d =
     (if fails then (Inl StorageError, d)
      else case body d of Inl e \<Rightarrow> (Inl e, d) | Inr (r, d') \<Rightarrow> (Inr r, d'))"

datatype 'a flow_result = Rejected string | Aborted error | Logged 'a

text \<open>Which of the four transactions of one strength submit meets a storage failure.\<close>

record faults =
  add_set_fails :: bool
  check_fails :: bool
  log_weight_fails :: bool
  log_1rm_fails :: bool

text \<open>
  app.py, the strength branch of the submit handler: validate, \<^verbatim>\<open>db.add_set\<close>,
  \<^verbatim>\<open>db.check_if_pr\<close>, then one \<^verbatim>\<open>db.log_pr\<close> for each true flag. An exception ends the
  script run; what earlier calls committed stays.
\<close>

definition strength_submit ::
  "faults \<Rightarrow> db \<Rightarrow> int \<Rightarrow> date \<Rightarrow> int \<Rightarrow> int \<Rightarrow> int \<Rightarrow> real \<Rightarrow> pr_check flow_result \<times> db" where
  "strength_submit f d now today workout_id exercise_id r w =
     (let est_1rm = calculate_estimated_1rm w r;
          (valid, error_msg) = validate_set_input r w
      in if \<not> valid then (Rejected error_msg, d)
         else
           case get_db (add_set_fails f) (\<lambda>d. add_set d now workout_id exercise_id r w) d of
             (Inl e, d1) \<Rightarrow> (Aborted e, d1)
           | (Inr _, d1) \<Rightarrow>
           case get_db (check_fails f) (\<lambda>d. Inr (check_if_pr d exercise_id w r today, d)) d1 of
             (Inl e, d2) \<Rightarrow> (Aborted e, d2)
           | (Inr pr_check', d2) \<Rightarrow>
           case (if is_weight_pr pr_check'
                 then get_db (log_weight_fails f)
                        (\<lambda>d. log_pr d exercise_id ''weight'' w today (Some (RepsContext r))) d2
                 else (Inr (), d2)) of
             (Inl e, d3) \<Rightarrow> (Aborted e, d3)
           | (Inr _, d3) \<Rightarrow>
           case (if is_1rm_pr pr_check'
                 then get_db (log_1rm_fails f)
                        (\<lambda>d. log_pr d exercise_id ''1rm'' est_1rm today
                                (Some (WeightRepsContext w r))) d3
                 else (Inr (), d3)) of
             (Inl e, d4) \<Rightarrow> (Aborted e, d4)
           | (Inr _, d4) \<Rightarrow> (Logged pr_check', d4))"


section \<open>Sequences of set operations\<close>

text \<open>
  A run of \<^verbatim>\<open>add_set\<close> and \<^verbatim>\<open>delete_set\<close> calls on one \<open>(workout_id, exercise_id)\<close> pair;
  it returns the \<^verbatim>\<open>set_number\<close> each \<^verbatim>\<open>add_set\<close> stored, in call order.
\<close>

datatype set_op = AddSet int int real | DeleteSet int

fun run_set_ops :: "db \<Rightarrow> int \<Rightarrow> int \<Rightarrow> set_op list \<Rightarrow> error + (int list \<times> db)" where
  "run_set_ops d workout_id exercise_id [] = Inr ([], d)"
| "run_set_ops d workout_id exercise_id (AddSet now r w # ops) =
     (case add_set d now workout_id exercise_id r w of
        Inl e \<Rightarrow> Inl e
      | Inr (new_id, d') \<Rightarrow>
          (case run_set_ops d' workout_id exercise_id ops of
             Inl e \<Rightarrow> Inl e
           | Inr (ns, d'') \<Rightarrow>
               Inr (map set_number (filter (\<lambda>s. s_id s = new_id) (sets d')) @ ns, d'')))"
| "run_set_ops d workout_id exercise_id (DeleteSet set_id # ops) =
     (case delete_set d set_id of
        Inl e \<Rightarrow> Inl e
      | Inr (_, d') \<Rightarrow> run_set_ops d' workout_id exercise_id ops)"

section \<open>The rules as the specification words them\<close>

text \<open>
  Pace formatting with \<open>round\<close> for the seconds, as the specification has it; compared below
  with \<open>format_pace\<close>, which is the code.
\<close>

definition format_pace_spec :: "real \<Rightarrow> string" where
  "format_pace_spec p = str_int \<lfloor>p\<rfloor> @ '':'' @ fmt_02d (round ((p - of_int \<lfloor>p\<rfloor>) * 60))"

text \<open>
  The prior best estimated 1RM as the specification has it: \<open>calculate_estimated_1rm\<close>, with
  its case for one rep, over every prior set, 0 without history.
\<close>

definition prior_best_1rm_spec :: "db \<Rightarrow> int \<Rightarrow> date \<Rightarrow> real" where
  "prior_best_1rm_spec d exercise_id before_date =
     (case sql_max (map (\<lambda>s. calculate_estimated_1rm (weight s) (reps s))
                        (prior_sets d exercise_id before_date)) of
        None \<Rightarrow> 0 | Some m \<Rightarrow> m)"

text \<open>
  The next set number as the specification has it: the greatest \<^verbatim>\<open>set_number\<close> stored
  for the pair plus one, and 1 when the pair has no set.
\<close>

definition max_plus_one :: "db \<Rightarrow> int \<Rightarrow> int \<Rightarrow> int" where
  "max_plus_one d workout_id exercise_id =
     (if pair_sets d workout_id exercise_id = [] then 1
      else Max (set_number ` set (pair_sets d workout_id exercise_id)) + 1)"

text \<open>
  The calendar days that count for the streak, as the specification has them: the dates of
  the workouts that have at least one set.
\<close>

definition workout_days :: "db \<Rightarrow> date set" where
  "workout_days d =
     {workout_date w | w. w \<in> set (workouts d) \<and> (\<exists>s \<in> set (sets d). s_workout_id s = w_id w)}"

section \<open>Example stores\<close>

text \<open>One strength and one running exercise, a workout on 2024-01-03, nothing logged yet.\<close>

definition fresh_db :: db where
  "fresh_db =
     \<lparr>exercises = [\<lparr>ex_id = 1, ex_name = ''Bench Press'', ex_category = Some ''Upper Strength''\<rparr>,
                   \<lparr>ex_id = 2, ex_name = ''Morning Run'', ex_category = Some ''Easy Run''\<rparr>],
      workouts = [\<lparr>w_id = 1, workout_date = ymd 2024 1 3, w_notes = None\<rparr>],
      sets = [], personal_records = [], next_set_id = 1, next_pr_id = 1\<rparr>"

text \<open>A single of 300 lbs on 2024-01-01, and an empty workout on 2024-01-03.\<close>

definition single_db :: db where
  "single_db =
     \<lparr>exercises = [\<lparr>ex_id = 1, ex_name = ''Bench Press'', ex_category = Some ''Upper Strength''\<rparr>],
      workouts = [\<lparr>w_id = 1, workout_date = ymd 2024 1 1, w_notes = None\<rparr>,
                  \<lparr>w_id = 2, workout_date = ymd 2024 1 3, w_notes = None\<rparr>],
      sets = [\<lparr>s_id = 1, s_workout_id = 1, s_exercise_id = 1, set_number = 1,
               reps = 1, weight = 300, s_created_at = 100\<rparr>],
      personal_records = [], next_set_id = 2, next_pr_id = 1\<rparr>"

text \<open>Non-empty workouts on 2024-01-01, 2024-01-02 and 2024-01-03.\<close>

definition three_day_db :: db where
  "three_day_db =
     \<lparr>exercises = [\<lparr>ex_id = 1, ex_name = ''Bench Press'', ex_category = Some ''Upper Strength''\<rparr>],
      workouts = [\<lparr>w_id = 1, workout_date = ymd 2024 1 1, w_notes = None\<rparr>,
                  \<lparr>w_id = 2, workout_date = ymd 2024 1 2, w_notes = None\<rparr>,
                  \<lparr>w_id = 3, workout_date = ymd 2024 1 3, w_notes = None\<rparr>],
      sets = [\<lparr>s_id = 1, s_workout_id = 1, s_exercise_id = 1, set_number = 1,
               reps = 10, weight = 135, s_created_at = 100\<rparr>,
              \<lparr>s_id = 2, s_workout_id = 2, s_exercise_id = 1, set_number = 1,
               reps = 10, weight = 135, s_created_at = 200\<rparr>,
              \<lparr>s_id = 3, s_workout_id = 3, s_exercise_id = 1, set_number = 1,
               reps = 10, weight = 135, s_created_at = 300\<rparr>],
      personal_records = [], next_set_id = 4, next_pr_id = 1\<rparr>"

text \<open>
  A set of 300 lbs of exercise 1 on 2024-01-01, a heavier set of exercise 2 on the same day,
  and a heavier set of exercise 1 on 2024-01-03.
\<close>

definition mixed_db :: db where
  "mixed_db =
     \<lparr>exercises = [\<lparr>ex_id = 1, ex_name = ''Bench Press'', ex_category = Some ''Upper Strength''\<rparr>,
                   \<lparr>ex_id = 2, ex_name = ''Squat'', ex_category = Some ''Lower Strength''\<rparr>],
      workouts = [\<lparr>w_id = 1, workout_date = ymd 2024 1 1, w_notes = None\<rparr>,
                  \<lparr>w_id = 2, workout_date = ymd 2024 1 3, w_notes = None\<rparr>],
      sets = [\<lparr>s_id = 1, s_workout_id = 1, s_exercise_id = 1, set_number = 1,
               reps = 5, weight = 300, s_created_at = 100\<rparr>,
              \<lparr>s_id = 2, s_workout_id = 1, s_exercise_id = 2, set_number = 1,
               reps = 5, weight = 500, s_created_at = 200\<rparr>,
              \<lparr>s_id = 3, s_workout_id = 2, s_exercise_id = 1, set_number = 1,
               reps = 5, weight = 400, s_created_at = 300\<rparr>],
      personal_records = [], next_set_id = 4, next_pr_id = 1\<rparr>"

text \<open>
  Two runs of exercise 2 in the workout of 2024-01-03, the first with heart rate 140 written
  into its \<^verbatim>\<open>set_number\<close>, the second, more recent one still numbered 2; and a later set
  of exercise 1 in the same workout whose \<^verbatim>\<open>set_number\<close> is 500.
\<close>

definition run_db :: db where
  "run_db =
     \<lparr>exercises = [\<lparr>ex_id = 1, ex_name = ''Bench Press'', ex_category = Some ''Upper Strength''\<rparr>,
                   \<lparr>ex_id = 2, ex_name = ''Morning Run'', ex_category = Some ''Easy Run''\<rparr>],
      workouts = [\<lparr>w_id = 1, workout_date = ymd 2024 1 3, w_notes = None\<rparr>],
      sets = [\<lparr>s_id = 1, s_workout_id = 1, s_exercise_id = 2, set_number = 140,
               reps = 31, weight = 28, s_created_at = 100\<rparr>,
              \<lparr>s_id = 2, s_workout_id = 1, s_exercise_id = 2, set_number = 2,
               reps = 20, weight = 19, s_created_at = 200\<rparr>,
              \<lparr>s_id = 3, s_workout_id = 1, s_exercise_id = 1, set_number = 500,
               reps = 10, weight = 135, s_created_at = 300\<rparr>],
      personal_records = [], next_set_id = 4, next_pr_id = 1\<rparr>"

section \<open>Properties\<close>

lemma sql_max_eq_Max: "xs \<noteq> [] \<Longrightarrow> sql_max xs = Some (Max (set xs))"
proof (cases xs)
  case Nil
  assume "xs \<noteq> []"
  with Nil show ?thesis by simp
next
  case (Cons y ys)
  have "fold max ys y = Max (set (y # ys))"
    by (rule Max.set_eq_fold [symmetric])
  with Cons show ?thesis by simp
qed

lemma sql_min_eq_Min: "xs \<noteq> [] \<Longrightarrow> sql_min xs = Some (Min (set xs))"
proof (cases xs)
  case Nil
  assume "xs \<noteq> []"
  with Nil show ?thesis by simp
next
  case (Cons y ys)
  have "fold min ys y = Min (set (y # ys))"
    by (rule Min.set_eq_fold [symmetric])
  with Cons show ?thesis by simp
qed

lemma truthy_or_zero: "truthy_or v (0::real) = (case v of None \<Rightarrow> 0 | Some x \<Rightarrow> x)"
  by (simp add: truthy_or_def split: option.splits)

lemma truthy_or_Max:
  "xs \<noteq> [] \<Longrightarrow> truthy_or (sql_max xs) (0::real) = Max (set xs)"
  by (simp add: sql_max_eq_Max truthy_or_def)

lemmas example_defs = ymd_def days_before_year_def days_before_month_def is_leap_def
  fresh_db_def single_db_def three_day_db_def

subsection \<open>Strength PRs\<close>

lemma set_prior_sets:
  "set (prior_sets d e dt) =
     {s \<in> set (sets d). s_exercise_id s = e
        \<and> (\<exists>wk \<in> set (workouts d). w_id wk = s_workout_id s \<and> workout_date wk < dt)}"
  by (auto simp: prior_sets_def)

lemma prior_weights:
  "weight ` set (prior_sets d e dt) =
     {weight s | s wk. s \<in> set (sets d) \<and> wk \<in> set (workouts d) \<and> w_id wk = s_workout_id s
        \<and> s_exercise_id s = e \<and> workout_date wk < dt}"
  unfolding set_prior_sets by blast

text \<open>
  C5. \<^verbatim>\<open>check_if_pr\<close> sets \<^verbatim>\<open>is_weight_pr\<close> exactly when the candidate weight is strictly
  greater than the greatest weight among the sets of that exercise that belong to a workout
  dated strictly before the candidate date, and strictly greater than 0 when there is no
  such set. Sets of other exercises and sets of workouts on or after the candidate date do
  not count.
\<close>

theorem check_if_pr_weight_pr:
  "is_weight_pr (check_if_pr d exercise_id w r dt) \<longleftrightarrow>
     (let prior_weights =
            {weight s | s wk. s \<in> set (sets d) \<and> wk \<in> set (workouts d)
               \<and> w_id wk = s_workout_id s \<and> s_exercise_id s = exercise_id
               \<and> workout_date wk < dt}
      in w > (if prior_weights = {} then 0 else Max prior_weights))"
proof (cases "prior_sets d exercise_id dt = []")
  case True
  then have "weight ` set (prior_sets d exercise_id dt) = {}" by simp
  then have "{weight s | s wk. s \<in> set (sets d) \<and> wk \<in> set (workouts d)
               \<and> w_id wk = s_workout_id s \<and> s_exercise_id s = exercise_id
               \<and> workout_date wk < dt} = {}"
    by (simp only: prior_weights)
  with True show ?thesis
    by (simp add: check_if_pr_def truthy_or_def)
next
  case False
  then have ne: "weight ` set (prior_sets d exercise_id dt) \<noteq> {}" by simp
  from False have "truthy_or (sql_max (map weight (prior_sets d exercise_id dt))) 0
               = Max (weight ` set (prior_sets d exercise_id dt))"
    using truthy_or_Max [of "map weight (prior_sets d exercise_id dt)"] by simp
  then have "is_weight_pr (check_if_pr d exercise_id w r dt)
               \<longleftrightarrow> w > Max (weight ` set (prior_sets d exercise_id dt))"
    by (simp add: check_if_pr_def Let_def)
  with ne show ?thesis
    by (simp only: prior_weights Let_def if_False)
qed

text \<open>
  With a best of 300 lbs on 2024-01-01, 500 lbs on another exercise that day and 400 lbs on
  the candidate's own day: 300 again is no weight PR, 301 is one; and a first set of 45 lbs
  on an exercise without history is one.
\<close>

theorem check_if_pr_weight_pr_witness:
  "\<not> is_weight_pr (check_if_pr mixed_db 1 300 5 (ymd 2024 1 3))
   \<and> is_weight_pr (check_if_pr mixed_db 1 301 5 (ymd 2024 1 3))
   \<and> is_weight_pr (check_if_pr fresh_db 1 45 5 (ymd 2024 1 3))"
proof -
  have m: "{weight s | s wk. s \<in> set (sets mixed_db) \<and> wk \<in> set (workouts mixed_db)
               \<and> w_id wk = s_workout_id s \<and> s_exercise_id s = 1
               \<and> workout_date wk < ymd 2024 1 3} = {300}"
  proof (intro equalityI subsetI)
    fix x
    assume "x \<in> {weight s | s wk. s \<in> set (sets mixed_db) \<and> wk \<in> set (workouts mixed_db)
               \<and> w_id wk = s_workout_id s \<and> s_exercise_id s = 1
               \<and> workout_date wk < ymd 2024 1 3}"
    then show "x \<in> {300}" by (auto simp: mixed_db_def example_defs)
  next
    fix x :: real
    let ?s = "\<lparr>s_id = 1, s_workout_id = 1, s_exercise_id = 1, set_number = 1,
               reps = 5, weight = 300, s_created_at = 100\<rparr>"
    let ?wk = "\<lparr>w_id = 1, workout_date = ymd 2024 1 1, w_notes = None\<rparr>"
    assume "x \<in> {300}"
    then have "x = weight ?s \<and> ?s \<in> set (sets mixed_db) \<and> ?wk \<in> set (workouts mixed_db)
               \<and> w_id ?wk = s_workout_id ?s \<and> s_exercise_id ?s = 1
               \<and> workout_date ?wk < ymd 2024 1 3"
      by (simp add: mixed_db_def example_defs)
    then show "x \<in> {weight s | s wk. s \<in> set (sets mixed_db) \<and> wk \<in> set (workouts mixed_db)
               \<and> w_id wk = s_workout_id s \<and> s_exercise_id s = 1
               \<and> workout_date wk < ymd 2024 1 3}"
      by blast
  qed
  have f: "{weight s | s wk. s \<in> set (sets fresh_db) \<and> wk \<in> set (workouts fresh_db)
               \<and> w_id wk = s_workout_id s \<and> s_exercise_id s = 1
               \<and> workout_date wk < ymd 2024 1 3} = {}"
    by (simp add: fresh_db_def)
  from check_if_pr_weight_pr [of mixed_db 1 300 5 "ymd 2024 1 3"]
       check_if_pr_weight_pr [of mixed_db 1 301 5 "ymd 2024 1 3"]
       check_if_pr_weight_pr [of fresh_db 1 45 5 "ymd 2024 1 3"]
  show ?thesis
    by (simp only: m f Let_def) simp
qed

text \<open>
  C2. The candidate's estimated 1RM keeps the weight for a single rep, but the SQL
  aggregate over the prior sets applies \<^verbatim>\<open>weight * (1 + reps / 30.0)\<close> to every row,
  singles included. After a single at 300 lbs, a single at 305 lbs is compared with
  310 and is not flagged, although its estimated 1RM, 305, exceeds the prior best of 300
  under \<open>calculate_estimated_1rm\<close>.
\<close>

theorem check_if_pr_1rm_after_single:
  "is_1rm_pr (check_if_pr single_db 1 305 1 (ymd 2024 1 3)) = False
   \<and> previous_1rm (check_if_pr single_db 1 305 1 (ymd 2024 1 3)) = 310
   \<and> prior_best_1rm_spec single_db 1 (ymd 2024 1 3) = 300
   \<and> calculate_estimated_1rm 305 1 > prior_best_1rm_spec single_db 1 (ymd 2024 1 3)"
  by (simp add: check_if_pr_def prior_best_1rm_spec_def calculate_estimated_1rm_def
        prior_sets_def truthy_or_def example_defs)

subsection \<open>Running PRs\<close>

text \<open>
  C1, as stated, fails: the first run of an exercise, 3 miles in 30 minutes, is flagged
  as a pace PR.
\<close>

theorem first_run_pace_pr_counterexample:
  "prior_sets fresh_db 2 (ymd 2024 1 3) = [] \<and> (0::real) < 3 \<and> (0::real) < 30
   \<and> map_sum id is_pace_pr (check_running_pr fresh_db 2 3 30 (ymd 2024 1 3)) = Inr True"
  by (simp add: check_running_pr_def prior_sets_def truthy_or_def example_defs)

text \<open>
  C1, amended. Without a set of the exercise in a workout dated strictly before the
  candidate date, the prior best pace is the sentinel 999, so \<^verbatim>\<open>check_running_pr\<close> returns
  \<^verbatim>\<open>is_pace_pr\<close> true exactly when the candidate's pace \<^verbatim>\<open>time_minutes / miles\<close> is below
  999 minutes per mile (and reports a previous best pace of 0 and a distance PR).
\<close>

theorem check_running_pr_first_run:
  assumes "prior_sets d exercise_id dt = []" and "0 < miles"
  shows "check_running_pr d exercise_id miles time_minutes dt =
           Inr \<lparr>is_pace_pr = (time_minutes / miles < 999), previous_best_pace = 0,
                is_distance_pr = True, previous_max_distance = 0\<rparr>"
  using assms by (simp add: check_running_pr_def truthy_or_def)

theorem check_running_pr_first_run_witness:
  "check_running_pr fresh_db 2 3 30 (ymd 2024 1 3) =
     Inr \<lparr>is_pace_pr = True, previous_best_pace = 0,
          is_distance_pr = True, previous_max_distance = 0\<rparr>"
proof -
  have h: "prior_sets fresh_db 2 (ymd 2024 1 3) = []"
    by (simp add: prior_sets_def example_defs)
  show ?thesis
    using check_running_pr_first_run [OF h, of 3 30] by simp
qed

subsection \<open>The run submit flow and the reps column\<close>








subsection \<open>Operations on an id that does not exist\<close>

text \<open>
  C8, as stated, fails: no set has id 42, and \<^verbatim>\<open>delete_set(42)\<close> returns normally with the
  store as it was.
\<close>

theorem delete_set_missing_counterexample:
  "\<not> list_ex (\<lambda>s. s_id s = 42) (sets fresh_db) \<and> delete_set fresh_db 42 = Inr ((), fresh_db)"
  by (simp add: delete_set_def fresh_db_def)

lemma filter_id_conv: "(\<forall>x\<in>set xs. P x) \<Longrightarrow> filter P xs = xs"
  by (induction xs) simp_all

text \<open>
  C8, amended. \<^verbatim>\<open>delete_set\<close> with an id no set has, and \<^verbatim>\<open>delete_workout\<close> with an id no
  workout has, return without error and leave the store unchanged;
  \<^verbatim>\<open>get_workout_details\<close> with an id no workout has fails, with the TypeError of
  \<^verbatim>\<open>dict(None)\<close>.
\<close>

theorem missing_id_operations:
  "(set_id \<notin> set (map s_id (sets d)) \<longrightarrow> delete_set d set_id = Inr ((), d))
   \<and> (workout_id \<notin> set (map w_id (workouts d)) \<longrightarrow>
        delete_workout d workout_id = Inr ((), d)
        \<and> get_workout_details d workout_id = Inl TypeError)"
proof (intro conjI impI)
  assume "set_id \<notin> set (map s_id (sets d))"
  then have "filter (\<lambda>s. s_id s \<noteq> set_id) (sets d) = sets d"
    by (intro filter_id_conv) auto
  then show "delete_set d set_id = Inr ((), d)"
    by (simp add: delete_set_def)
next
  assume "workout_id \<notin> set (map w_id (workouts d))"
  then show "delete_workout d workout_id = Inr ((), d)"
    by (simp add: delete_workout_def)
next
  assume "workout_id \<notin> set (map w_id (workouts d))"
  then have "filter (\<lambda>w. w_id w = workout_id) (workouts d) = []"
    by (auto simp: filter_empty_conv)
  then show "get_workout_details d workout_id = Inl TypeError"
    by (simp add: get_workout_details_def)
qed

theorem missing_id_operations_witness:
  "delete_set fresh_db 42 = Inr ((), fresh_db)
   \<and> delete_workout fresh_db 42 = Inr ((), fresh_db)
   \<and> get_workout_details fresh_db 42 = Inl TypeError"
  using missing_id_operations [of 42 fresh_db 42]
  by (simp add: fresh_db_def)

subsection \<open>Pace formatting\<close>

lemma binade_up_stop: "x < 2 \<Longrightarrow> binade_up n x = 0"
  by (simp add: binade_up.simps [of n x])

lemma binade_up_step: "0 < n \<Longrightarrow> 2 \<le> x \<Longrightarrow> binade_up n x = binade_up (n - 1) (x / 2) + 1"
  by (simp add: binade_up.simps [of n x])

lemma binade_down_stop: "1 \<le> x \<Longrightarrow> binade_down n x = 0"
  by (simp add: binade_down.simps [of n x])

lemma binade_down_step:
  "0 < n \<Longrightarrow> x < 1 \<Longrightarrow> binade_down n x = binade_down (n - 1) (x * 2) - 1"
  by (simp add: binade_down.simps [of n x])

lemmas fl_eval = fl_def expo_def ulp_def round_even_def
  binade_up_stop binade_up_step binade_down_stop binade_down_step

lemma binade_up_nonneg: "0 \<le> binade_up n x"
proof (induction n x rule: binade_up.induct)
  case (1 n x)
  show ?case
  proof (cases "n = 0 \<or> x < 2")
    case True
    then show ?thesis by (simp add: binade_up.simps [of n x])
  next
    case False
    with 1 show ?thesis by (simp add: binade_up.simps [of n x])
  qed
qed

lemma binade_up_le: "x < 2 ^ (k + 1) \<Longrightarrow> binade_up n x \<le> int k"
proof (induction n x arbitrary: k rule: binade_up.induct)
  case (1 n x)
  show ?case
  proof (cases "n = 0 \<or> x < 2")
    case True
    then show ?thesis by (simp add: binade_up.simps [of n x])
  next
    case False
    then have x2: "2 \<le> x" and n0: "n \<noteq> 0" by auto
    from x2 "1.prems" obtain k' where k: "k = Suc k'"
      by (cases k) auto
    from "1.prems" k have "x / 2 < 2 ^ (k' + 1)" by simp
    from "1.IH" [OF False this] have "binade_up (n - 1) (x / 2) \<le> int k'" .
    with False k show ?thesis by (simp add: binade_up.simps [of n x])
  qed
qed

lemma binade_up_ge: "2 ^ k \<le> x \<Longrightarrow> k \<le> n \<Longrightarrow> int k \<le> binade_up n x"
proof (induction n x arbitrary: k rule: binade_up.induct)
  case (1 n x)
  show ?case
  proof (cases k)
    case 0
    then show ?thesis using binade_up_nonneg [of n x] by simp
  next
    case (Suc k')
    with "1.prems" have "(2::real) * 2 ^ k' \<le> x" by simp
    moreover have "(1::real) \<le> 2 ^ k'" by simp
    ultimately have x2: "2 \<le> x" and half: "2 ^ k' \<le> x / 2" by linarith+
    from Suc "1.prems" have n0: "n \<noteq> 0" and kn: "k' \<le> n - 1" by auto
    from x2 n0 have F: "\<not> (n = 0 \<or> x < 2)" by simp
    from "1.IH" [OF F half kn] F Suc show ?thesis
      by (simp add: binade_up.simps [of n x])
  qed
qed

lemma binade_down_nonpos: "binade_down n x \<le> 0"
proof (induction n x rule: binade_down.induct)
  case (1 n x)
  show ?case
  proof (cases "n = 0 \<or> 1 \<le> x")
    case True
    then show ?thesis by (simp add: binade_down.simps [of n x])
  next
    case False
    with 1 show ?thesis by (simp add: binade_down.simps [of n x])
  qed
qed

lemma binade_down_scaled: "x < 2 \<Longrightarrow> x * 2 ^ nat (- binade_down n x) < 2"
proof (induction n x rule: binade_down.induct)
  case (1 n x)
  show ?case
  proof (cases "n = 0 \<or> 1 \<le> x")
    case True
    with "1.prems" show ?thesis by (simp add: binade_down.simps [of n x])
  next
    case False
    then have "x * 2 < 2" by simp
    from "1.IH" [OF False this]
    have ih: "x * 2 * 2 ^ nat (- binade_down (n - 1) (x * 2)) < 2" .
    have "nat (- (binade_down (n - 1) (x * 2) - 1)) = Suc (nat (- binade_down (n - 1) (x * 2)))"
      using binade_down_nonpos [of "n - 1" "x * 2"] by simp
    with ih False show ?thesis
      by (simp add: binade_down.simps [of n x] mult.assoc)
  qed
qed

lemma round_even_floor: "\<lfloor>m\<rfloor> \<le> round_even m" and round_even_floor1: "round_even m \<le> \<lfloor>m\<rfloor> + 1"
  by (simp_all add: round_even_def Let_def)

lemma round_even_ge: "of_int N \<le> m \<Longrightarrow> N \<le> round_even m"
proof -
  assume "of_int N \<le> m"
  then have "N \<le> \<lfloor>m\<rfloor>" by (simp add: le_floor_iff)
  with round_even_floor [of m] show ?thesis by linarith
qed

lemma round_even_le: "m \<le> of_int N \<Longrightarrow> round_even m \<le> N"
proof (cases "m = of_int N")
  case True
  then show ?thesis by (simp add: round_even_def)
next
  case False
  assume "m \<le> of_int N"
  with False have "m < of_int N" by simp
  then have "\<lfloor>m\<rfloor> < N" by (simp add: floor_less_iff)
  with round_even_floor1 [of m] show ?thesis by linarith
qed

lemma round_even_cases:
  "round_even m = \<lfloor>m\<rfloor> \<or> (round_even m = \<lfloor>m\<rfloor> + 1 \<and> 1 / 2 \<le> m - of_int \<lfloor>m\<rfloor>)"
  by (simp add: round_even_def Let_def)

lemma round_even_near: "real_of_int (round_even m) \<le> m + 1 / 2"
proof -
  have f: "real_of_int \<lfloor>m\<rfloor> \<le> m" by (rule of_int_floor_le)
  from round_even_cases [of m] show ?thesis
  proof
    assume "round_even m = \<lfloor>m\<rfloor>"
    then have "real_of_int (round_even m) = real_of_int \<lfloor>m\<rfloor>" by simp
    with f show ?thesis by linarith
  next
    assume a: "round_even m = \<lfloor>m\<rfloor> + 1 \<and> 1 / 2 \<le> m - of_int \<lfloor>m\<rfloor>"
    then have "real_of_int (round_even m) = real_of_int \<lfloor>m\<rfloor> + 1" by simp
    with a show ?thesis by linarith
  qed
qed

lemma round_even_below: "m < of_int N - 1 / 2 \<Longrightarrow> round_even m \<le> N - 1"
proof -
  assume a: "m < of_int N - 1 / 2"
  then have "m < of_int N" by simp
  then have fl: "\<lfloor>m\<rfloor> \<le> N - 1" by (simp add: floor_less_iff)
  show ?thesis
  proof (cases "\<lfloor>m\<rfloor> = N - 1")
    case True
    with a have "m - of_int \<lfloor>m\<rfloor> < 1 / 2" by simp
    with True show ?thesis by (simp add: round_even_def Let_def)
  next
    case False
    with fl round_even_floor1 [of m] show ?thesis by linarith
  qed
qed

lemma expo_le: "0 < x \<Longrightarrow> x < 2 ^ (k + 1) \<Longrightarrow> expo x \<le> int k"
  using binade_up_le [of x k 1024] binade_down_nonpos [of 1022 x]
  by (simp add: expo_def)

lemma fl_pos: "0 < x \<Longrightarrow> fl x = of_int (round_even (x / ulp (expo x))) * ulp (expo x)"
  by (simp add: fl_def)

lemma ulp_small: "e \<le> 52 \<Longrightarrow> ulp e = 1 / 2 ^ nat (52 - e)"
  by (cases "e = 52") (simp_all add: ulp_def)

lemma fl_scaled:
  assumes "0 < x" and "expo x \<le> 52"
  shows "fl x = of_int (round_even (x * 2 ^ nat (52 - expo x))) / 2 ^ nat (52 - expo x)"
  using assms by (simp add: fl_pos ulp_small)

lemma fl_ge_int:
  assumes "0 < x" and "x < 2 ^ 53" and "of_int N \<le> x"
  shows "of_int N \<le> fl x"
proof -
  have e: "expo x \<le> 52" using expo_le [of x 52] assms by simp
  let ?j = "nat (52 - expo x)"
  have "of_int (N * 2 ^ ?j) \<le> x * 2 ^ ?j" using assms(3) by simp
  then have "N * 2 ^ ?j \<le> round_even (x * 2 ^ ?j)" by (rule round_even_ge)
  then have "real_of_int (N * 2 ^ ?j) \<le> of_int (round_even (x * 2 ^ ?j))"
    by (simp only: of_int_le_iff)
  then have "real_of_int N \<le> real_of_int (round_even (x * 2 ^ ?j)) / 2 ^ ?j"
    by (simp add: pos_le_divide_eq)
  then show ?thesis by (simp add: fl_scaled [OF assms(1) e])
qed

lemma fl_le_int:
  assumes "0 < x" and "x < 2 ^ 53" and "x \<le> of_int N"
  shows "fl x \<le> of_int N"
proof -
  have e: "expo x \<le> 52" using expo_le [of x 52] assms by simp
  let ?j = "nat (52 - expo x)"
  have "x * 2 ^ ?j \<le> of_int (N * 2 ^ ?j)" using assms(3) by simp
  then have "round_even (x * 2 ^ ?j) \<le> N * 2 ^ ?j" by (rule round_even_le)
  then have "real_of_int (round_even (x * 2 ^ ?j)) \<le> of_int (N * 2 ^ ?j)"
    by (simp only: of_int_le_iff)
  then have "real_of_int (round_even (x * 2 ^ ?j)) / 2 ^ ?j \<le> real_of_int N"
    by (simp add: pos_divide_le_eq)
  then show ?thesis by (simp add: fl_scaled [OF assms(1) e])
qed

lemma fl_near:
  assumes "0 < x" and "x < 64"
  shows "fl x \<le> x + 1 / 2 ^ 48"
proof -
  have e5: "expo x \<le> 5" using expo_le [of x 5] assms by simp
  then have e: "expo x \<le> 52" by simp
  let ?j = "nat (52 - expo x)"
  from e5 have j: "47 \<le> ?j" by simp
  have "real_of_int (round_even (x * 2 ^ ?j)) \<le> x * 2 ^ ?j + 1 / 2"
    by (rule round_even_near)
  then have "real_of_int (round_even (x * 2 ^ ?j)) / 2 ^ ?j \<le> (x * 2 ^ ?j + 1 / 2) / 2 ^ ?j"
    by (simp add: divide_right_mono)
  also have "\<dots> = x + 1 / 2 ^ Suc ?j"
    by (simp add: add_divide_distrib)
  also have "\<dots> \<le> x + 1 / 2 ^ 48"
  proof -
    from j have "(2::real) ^ 48 \<le> 2 ^ Suc ?j"
      by (intro power_increasing) simp_all
    then have "1 / (2::real) ^ Suc ?j \<le> 1 / 2 ^ 48"
      by (intro divide_left_mono) simp_all
    then show ?thesis by simp
  qed
  finally show ?thesis by (simp add: fl_scaled [OF assms(1) e])
qed


lemma double_frac_le:
  assumes "0 < p" and "fl p = p"
  shows "p - of_int \<lfloor>p\<rfloor> \<le> 1 - 1 / 2 ^ 53"
proof (cases "1 \<le> p")
  case True
  let ?e = "expo p"
  have e0: "0 \<le> ?e" using True binade_up_nonneg [of 1024 p] by (simp add: expo_def)
  show ?thesis
  proof (cases "?e \<le> 52")
    case False
    then have "ulp ?e = of_int (2 ^ nat (?e - 52))" by (simp add: ulp_def)
    then have "fl p = of_int (round_even (p / ulp ?e) * 2 ^ nat (?e - 52))"
      using assms(1) by (simp add: fl_pos)
    with assms(2) have "p = of_int (round_even (p / ulp ?e) * 2 ^ nat (?e - 52))" by simp
    then have "p - of_int \<lfloor>p\<rfloor> = 0"
      by (metis floor_of_int diff_self)
    then show ?thesis by simp
  next
    case e: True
    let ?j = "nat (52 - ?e)"
    let ?M = "round_even (p * 2 ^ ?j)"
    have j: "?j \<le> 53" using e0 by simp
    have "p = of_int ?M / 2 ^ ?j" using fl_scaled [OF assms(1) e] assms(2) by simp
    then have pM: "p * 2 ^ ?j = of_int ?M" by (simp add: field_simps)
    let ?K = "?M - \<lfloor>p\<rfloor> * 2 ^ ?j"
    have fK: "(p - of_int \<lfloor>p\<rfloor>) * 2 ^ ?j = of_int ?K"
      using pM by (simp add: algebra_simps)
    have "p - of_int \<lfloor>p\<rfloor> < 1" by linarith
    then have "(p - of_int \<lfloor>p\<rfloor>) * 2 ^ ?j < 1 * 2 ^ ?j"
      by (intro mult_strict_right_mono) simp_all
    with fK have "real_of_int ?K < of_int (2 ^ ?j)" by simp
    then have "?K < 2 ^ ?j" by (simp only: of_int_less_iff)
    then have "?K \<le> 2 ^ ?j - 1" by simp
    then have "real_of_int ?K \<le> of_int (2 ^ ?j - 1)" by (simp only: of_int_le_iff)
    with fK have "(p - of_int \<lfloor>p\<rfloor>) * 2 ^ ?j \<le> 2 ^ ?j - 1" by simp
    then have "p - of_int \<lfloor>p\<rfloor> \<le> (2 ^ ?j - 1) / 2 ^ ?j"
      by (simp add: pos_le_divide_eq)
    also have "\<dots> = 1 - 1 / 2 ^ ?j" by (simp add: diff_divide_distrib)
    also have "\<dots> \<le> 1 - 1 / 2 ^ 53"
    proof -
      from j have "(2::real) ^ ?j \<le> 2 ^ 53" by (intro power_increasing) simp_all
      then have "1 / (2::real) ^ 53 \<le> 1 / 2 ^ ?j"
        by (intro divide_left_mono) simp_all
      then show ?thesis by simp
    qed
    finally show ?thesis .
  qed
next
  case False
  then have p1: "p < 1" by simp
  with assms(1) have fl0: "\<lfloor>p\<rfloor> = 0" by (simp add: floor_eq_iff)
  let ?e = "binade_down 1022 p"
  have ex: "expo p = ?e" using p1 by (simp add: expo_def)
  have "?e = binade_down 1021 (p * 2) - 1" using p1 by (simp add: binade_down_step)
  with binade_down_nonpos [of 1021 "p * 2"] have e1: "?e \<le> - 1" by simp
  then have e: "expo p \<le> 52" using ex by simp
  let ?D = "nat (- ?e)"
  have j: "nat (52 - expo p) = 52 + ?D" using e1 ex by simp
  let ?M = "round_even (p * 2 ^ (52 + ?D))"
  have "p = of_int ?M / 2 ^ (52 + ?D)" using fl_scaled [OF assms(1) e] assms(2) j by simp
  then have pM: "p * 2 ^ (52 + ?D) = of_int ?M" by (simp add: field_simps)
  have "p * 2 ^ ?D < 2" using p1 by (intro binade_down_scaled) simp
  then have "p * 2 ^ ?D * 2 ^ 52 < 2 * 2 ^ 52" by (intro mult_strict_right_mono) simp_all
  then have "p * 2 ^ (52 + ?D) < 2 ^ 53" by (simp add: power_add mult_ac)
  with pM have "real_of_int ?M < of_int (2 ^ 53)" by simp
  then have "?M < 2 ^ 53" by (simp only: of_int_less_iff)
  then have "?M \<le> 2 ^ 53 - 1" by simp
  then have "real_of_int ?M \<le> of_int (2 ^ 53 - 1)" by (simp only: of_int_le_iff)
  with pM have a: "p * 2 ^ (52 + ?D) \<le> 2 ^ 53 - 1" by simp
  have D1: "1 \<le> ?D" using e1 by simp
  then have "(2::real) ^ 53 \<le> 2 ^ (52 + ?D)" by (intro power_increasing) simp_all
  with assms(1) have "p * 2 ^ 53 \<le> p * 2 ^ (52 + ?D)" by (intro mult_left_mono) simp_all
  with a have "p * 2 ^ 53 \<le> 2 ^ 53 - 1" by linarith
  then have "p \<le> (2 ^ 53 - 1) / 2 ^ 53" by (simp add: pos_le_divide_eq)
  then show ?thesis using fl0 by simp
qed

lemma fl_seconds_below_60:
  assumes "0 \<le> f" and "f \<le> 1 - 1 / 2 ^ 53"
  shows "fl (f * 60) < 60"
proof (cases "f * 60 < 59")
  case True
  show ?thesis
  proof (cases "f = 0")
    case True
    then show ?thesis by (simp add: fl_def)
  next
    case False
    with assms(1) have pos: "0 < f * 60" by simp
    have "fl (f * 60) \<le> of_int 59"
      using True by (intro fl_le_int [OF pos]) simp_all
    then show ?thesis by simp
  qed
next
  case False
  let ?x = "f * 60"
  from False have x59: "59 \<le> ?x" by simp
  then have pos: "0 < ?x" by simp
  from assms(2) have x64: "?x < 64" by simp
  have "expo ?x \<le> 5" using expo_le [of ?x 5] pos x64 by simp
  moreover have "5 \<le> expo ?x"
    using binade_up_ge [of 5 ?x 1024] x59 by (simp add: expo_def)
  ultimately have e: "expo ?x = 5" by simp
  have sc: "fl ?x = of_int (round_even (?x * 2 ^ 47)) / 2 ^ 47"
    using fl_scaled [OF pos] e by simp
  from assms(2) have "?x * 2 ^ 47 \<le> (1 - 1 / 2 ^ 53) * 60 * 2 ^ 47" by simp
  also have "\<dots> < of_int (60 * 2 ^ 47) - 1 / 2" by simp
  finally have "round_even (?x * 2 ^ 47) \<le> 60 * 2 ^ 47 - 1" by (rule round_even_below)
  then have "real_of_int (round_even (?x * 2 ^ 47)) \<le> of_int (60 * 2 ^ 47 - 1)"
    by (simp only: of_int_le_iff)
  then have "fl ?x \<le> of_int (60 * 2 ^ 47 - 1) / 2 ^ 47"
    unfolding sc by (intro divide_right_mono) simp_all
  also have "\<dots> < 60" by simp
  finally show ?thesis .
qed

text \<open>
  C9, as stated, fails: a pace of 9.3125 minutes per mile (9 minutes 18.75 seconds, both
  exact doubles) is shown as 9:18, where rounding the seconds gives 9:19.
\<close>

theorem format_pace_counterexample:
  "(0::real) < 149 / 16 \<and> fl (149 / 16) = 149 / 16
   \<and> format_pace (149 / 16) = ''9:18'' \<and> format_pace_spec (149 / 16) = ''9:19''"
  by (simp add: format_pace_def format_pace_spec_def py_int_def py_mod1_def round_def
        str_int_def fmt_02d_def str_nat.simps digit_char_def fl_eval)

lemma str_nat_two_digits:
  assumes "n < 100"
  shows "replicate (2 - length (str_nat n)) CHR ''0'' @ str_nat n
           = [digit_char (n div 10), digit_char (n mod 10)]"
proof (cases "n < 10")
  case True
  then have "str_nat n = [digit_char n]"
    by (simp add: str_nat.simps [of n])
  moreover have "digit_char 0 = CHR ''0''"
    by (simp add: digit_char_def)
  ultimately show ?thesis using True by (simp add: numeral_2_eq_2)
next
  case False
  with assms have "n div 10 < 10" by simp
  then have "str_nat (n div 10) = [digit_char (n div 10)]"
    by (simp add: str_nat.simps [of "n div 10"])
  with False have "str_nat n = [digit_char (n div 10), digit_char (n mod 10)]"
    by (simp add: str_nat.simps [of n])
  then show ?thesis by simp
qed

lemma fmt_02d_two_digits:
  assumes "0 \<le> i" and "i < 100"
  shows "fmt_02d i = [digit_char (nat i div 10), digit_char (nat i mod 10)]"
proof -
  from assms have "nat i < 100" by simp
  from str_nat_two_digits [OF this] assms(1) show ?thesis
    by (simp add: fmt_02d_def str_int_def Let_def)
qed

text \<open>
  C9, amended. For every pace \<open>p > 0\<close> the displayed string is \<open>M:SS\<close> with \<open>M\<close> the floor
  of \<open>p\<close> and \<open>SS\<close> the double-precision product of the fractional part and 60, truncated
  and never rounded to the nearest second: \<open>SS\<close> is the floor of the exact product, or one
  more when the exact product is less than \<open>1 / 2 ^ 48\<close> below the next whole second. \<open>SS\<close> is
  written with exactly two digits, and is at most 59 when \<open>p\<close> is a double.
\<close>

theorem format_pace_truncates:
  assumes "0 < p"
  shows "format_pace p = str_int \<lfloor>p\<rfloor> @ '':'' @ fmt_02d \<lfloor>fl ((p - of_int \<lfloor>p\<rfloor>) * 60)\<rfloor>
         \<and> \<lfloor>(p - of_int \<lfloor>p\<rfloor>) * 60\<rfloor> \<le> \<lfloor>fl ((p - of_int \<lfloor>p\<rfloor>) * 60)\<rfloor>
         \<and> \<lfloor>fl ((p - of_int \<lfloor>p\<rfloor>) * 60)\<rfloor> \<le> \<lfloor>(p - of_int \<lfloor>p\<rfloor>) * 60 + 1 / 2 ^ 48\<rfloor>
         \<and> fmt_02d \<lfloor>fl ((p - of_int \<lfloor>p\<rfloor>) * 60)\<rfloor>
             = [digit_char (nat \<lfloor>fl ((p - of_int \<lfloor>p\<rfloor>) * 60)\<rfloor> div 10),
                digit_char (nat \<lfloor>fl ((p - of_int \<lfloor>p\<rfloor>) * 60)\<rfloor> mod 10)]
         \<and> (fl p = p \<longrightarrow> \<lfloor>fl ((p - of_int \<lfloor>p\<rfloor>) * 60)\<rfloor> \<le> 59)"
proof -
  let ?f = "p - of_int \<lfloor>p\<rfloor>"
  let ?x = "?f * 60"
  have f0: "0 \<le> ?f" and f1: "?f < 1" by linarith+
  have x0: "0 \<le> ?x" using f0 by simp
  have x60: "?x < 60" using f1 by simp
  have lo: "of_int \<lfloor>?x\<rfloor> \<le> fl ?x" and hi: "fl ?x \<le> ?x + 1 / 2 ^ 48" and top: "fl ?x \<le> 60"
  proof -
    show "of_int \<lfloor>?x\<rfloor> \<le> fl ?x"
    proof (cases "?x = 0")
      case True
      then show ?thesis by (simp add: fl_def)
    next
      case False
      with x0 have "0 < ?x" by (metis order.not_eq_order_implies_strict)
      then show ?thesis using x60 by (intro fl_ge_int) simp_all
    qed
    show "fl ?x \<le> ?x + 1 / 2 ^ 48"
    proof (cases "?x = 0")
      case True
      then show ?thesis by (simp add: fl_def)
    next
      case False
      with x0 have "0 < ?x" by (metis order.not_eq_order_implies_strict)
      then show ?thesis using x60 by (intro fl_near) simp_all
    qed
    show "fl ?x \<le> 60"
    proof (cases "?x = 0")
      case True
      then show ?thesis by (simp add: fl_def)
    next
      case False
      with x0 have "0 < ?x" by (metis order.not_eq_order_implies_strict)
      then have "fl ?x \<le> of_int 60" using x60 by (intro fl_le_int) simp_all
      then show ?thesis by simp
    qed
  qed
  have flo: "\<lfloor>?x\<rfloor> \<le> \<lfloor>fl ?x\<rfloor>" using lo by (simp add: le_floor_iff)
  have fhi: "\<lfloor>fl ?x\<rfloor> \<le> \<lfloor>?x + 1 / 2 ^ 48\<rfloor>" using hi by (rule floor_mono)
  have fx0: "0 \<le> \<lfloor>?x\<rfloor>" using x0 by (simp only: zero_le_floor)
  have s0: "0 \<le> \<lfloor>fl ?x\<rfloor>" using flo fx0 by linarith
  have "\<lfloor>fl ?x\<rfloor> \<le> 60" using top by (simp add: floor_le_iff)
  then have s100: "\<lfloor>fl ?x\<rfloor> < 100" by simp
  have "(0::real) \<le> of_int \<lfloor>?x\<rfloor>" using fx0 by (simp only: of_int_0_le_iff)
  with lo have fl0: "0 \<le> fl ?x" by linarith
  have "py_int p = \<lfloor>p\<rfloor>" using assms by (simp add: py_int_def)
  moreover have "py_mod1 p = ?f" using assms by (simp add: py_mod1_def)
  moreover have "py_int (fl ?x) = \<lfloor>fl ?x\<rfloor>" using fl0 by (simp add: py_int_def)
  ultimately have shown: "format_pace p = str_int \<lfloor>p\<rfloor> @ '':'' @ fmt_02d \<lfloor>fl ?x\<rfloor>"
    by (simp add: format_pace_def)
  have digits: "fmt_02d \<lfloor>fl ?x\<rfloor>
             = [digit_char (nat \<lfloor>fl ?x\<rfloor> div 10), digit_char (nat \<lfloor>fl ?x\<rfloor> mod 10)]"
    using fmt_02d_two_digits [OF s0 s100] .
  have dbl: "\<lfloor>fl ?x\<rfloor> \<le> 59" if "fl p = p"
  proof -
    from double_frac_le [OF assms that] have "?f \<le> 1 - 1 / 2 ^ 53" .
    from fl_seconds_below_60 [OF f0 this] have "fl ?x < 60" .
    then have "\<lfloor>fl ?x\<rfloor> < 60" by (simp add: floor_less_iff)
    then show ?thesis by simp
  qed
  from shown flo fhi digits dbl show ?thesis by blast
qed

text \<open>
  The second pace is the double nearest to 143/30: its exact seconds are just below 46, the
  float product is 46.0, and 4:46 is shown.
\<close>

theorem format_pace_truncates_witness:
  "format_pace (149 / 16) = ''9:18''
   \<and> format_pace (5366789555949841 / 1125899906842624) = ''4:46''"
proof -
  have d1: "fl (149 / 16) = 149 / 16" and d2: "fl (5366789555949841 / 1125899906842624) = 5366789555949841 / 1125899906842624"
    by (simp_all add: fl_eval)
  have "format_pace (149 / 16) = ''9:18''"
    using format_pace_truncates [of "149 / 16"] d1
    by (simp add: str_int_def str_nat.simps digit_char_def fl_eval)
  moreover have "format_pace (5366789555949841 / 1125899906842624) = ''4:46''"
    using format_pace_truncates [of "5366789555949841 / 1125899906842624"] d2
    by (simp add: str_int_def str_nat.simps digit_char_def fl_eval)
  ultimately show ?thesis by simp
qed

text \<open>
  From the form: 71 minutes over 10 miles is shown as 7:05, since the float quotient lies
  below 7.1; 143 minutes over 30 miles as 4:46.
\<close>

lemma pace_display_examples:
  "pace_display 10 71 = Some ''7:05''" "pace_display 30 143 = Some ''4:46''"
  "\<lfloor>((143 / 30 :: real) - 4) * 60\<rfloor> = 46"
  "\<lfloor>((5366789555949841 / 1125899906842624 :: real) - 4) * 60\<rfloor> = 45"
  "pace_display 16 149 = Some ''9:18''" "pace_display 0 30 = None"
  by (simp_all add: pace_display_def format_pace_def py_int_def py_mod1_def str_int_def
        fmt_02d_def str_nat.simps digit_char_def fl_eval)

subsection \<open>Set numbering\<close>

text \<open>
  C4, as stated, fails: after three sets, deleting the third and adding a set assigns
  number 3 again, so the assigned numbers 1, 2, 3, 3 are not strictly increasing and the
  deleted set's number is reused.
\<close>

theorem set_number_reuse_counterexample:
  "map_sum id fst (run_set_ops fresh_db 1 1
      [AddSet 10 10 135, AddSet 20 8 145, AddSet 30 6 155, DeleteSet 3, AddSet 40 10 135])
   = Inr [1, 2, 3, 3]"
  by (simp add: add_set_def delete_set_def next_set_number_def pair_sets_def fresh_db_def)

lemma next_set_number_max_plus_one:
  "next_set_number d w e = max_plus_one d w e"
proof (cases "pair_sets d w e = []")
  case True
  then show ?thesis by (simp add: next_set_number_def max_plus_one_def)
next
  case False
  then have "sql_max (map set_number (pair_sets d w e))
               = Some (Max (set_number ` set (pair_sets d w e)))"
    using sql_max_eq_Max [of "map set_number (pair_sets d w e)"] by simp
  with False show ?thesis by (simp add: next_set_number_def max_plus_one_def)
qed

lemma max_plus_one_greater:
  assumes "s \<in> set (pair_sets d w e)"
  shows "set_number s < max_plus_one d w e"
proof -
  from assms have ne: "pair_sets d w e \<noteq> []" by auto
  have "set_number s \<le> Max (set_number ` set (pair_sets d w e))"
    using assms by (intro Max_ge) auto
  with ne show ?thesis by (simp add: max_plus_one_def)
qed

text \<open>
  C4, amended. Every successful \<^verbatim>\<open>add_set\<close> appends one set whose \<^verbatim>\<open>set_number\<close> is the
  greatest \<^verbatim>\<open>set_number\<close> stored for the pair plus one (1 when the pair has none), hence
  strictly greater than the number of every set the pair still holds; and after three
  sets, deleting set 2 and adding a set assigns 4, not 2.
\<close>

theorem add_set_assigns_max_plus_one:
  "(add_set d now w e r wt = Inr (i, d') \<longrightarrow>
      sets d' = sets d @ [\<lparr>s_id = i, s_workout_id = w, s_exercise_id = e,
                           set_number = max_plus_one d w e, reps = r, weight = wt,
                           s_created_at = now\<rparr>]
      \<and> (\<forall>s \<in> set (pair_sets d w e). set_number s < max_plus_one d w e))
   \<and> map_sum id fst (run_set_ops fresh_db 1 1
        [AddSet 10 10 135, AddSet 20 8 145, AddSet 30 6 155, DeleteSet 2, AddSet 40 10 135])
      = Inr [1, 2, 3, 4]"
proof (intro conjI impI ballI)
  assume a: "add_set d now w e r wt = Inr (i, d')"
  then show "sets d' = sets d @ [\<lparr>s_id = i, s_workout_id = w, s_exercise_id = e,
                           set_number = max_plus_one d w e, reps = r, weight = wt,
                           s_created_at = now\<rparr>]"
    by (auto simp: add_set_def Let_def next_set_number_max_plus_one split: if_splits)
next
  fix s assume "s \<in> set (pair_sets d w e)"
  then show "set_number s < max_plus_one d w e" by (rule max_plus_one_greater)
next
  show "map_sum id fst (run_set_ops fresh_db 1 1
        [AddSet 10 10 135, AddSet 20 8 145, AddSet 30 6 155, DeleteSet 2, AddSet 40 10 135])
      = Inr [1, 2, 3, 4]"
    by (simp add: add_set_def delete_set_def next_set_number_def pair_sets_def fresh_db_def)
qed

theorem add_set_assigns_max_plus_one_witness:
  "map_sum id (\<lambda>(i, d'). (i, map set_number (sets d'))) (add_set single_db 150 1 1 1 305)
     = Inr (2, [1, 2])"
proof -
  obtain d' where a: "add_set single_db 150 1 1 1 305 = Inr (2, d')"
    by (simp add: add_set_def single_db_def)
  have "max_plus_one single_db 1 1 = 2"
    by (simp add: max_plus_one_def pair_sets_def single_db_def)
  with add_set_assigns_max_plus_one [of single_db 150 1 1 1 305 2 d'] a
  have "map set_number (sets d') = [1, 2]"
    by (simp add: single_db_def)
  with a show ?thesis by simp
qed

subsection \<open>Heart rate in the set number\<close>

lemma fold_latest_unique:
  assumes "\<forall>s \<in> set xs. s = t \<or> s_created_at s < s_created_at t"
    and "case acc of None \<Rightarrow> True | Some b \<Rightarrow> b = t \<or> s_created_at b < s_created_at t"
    and "t \<in> set xs \<or> acc = Some t"
  shows "fold (\<lambda>s best. case best of None \<Rightarrow> Some s
                   | Some b \<Rightarrow> if s_created_at b < s_created_at s then Some s else Some b)
        xs acc = Some t"
  using assms
proof (induction xs arbitrary: acc)
  case Nil
  then show ?case by simp
next
  case (Cons x xs)
  let ?f = "\<lambda>s best. case best of None \<Rightarrow> Some s
                   | Some b \<Rightarrow> if s_created_at b < s_created_at s then Some s else Some b"
  have x: "x = t \<or> s_created_at x < s_created_at t" using Cons.prems(1) by simp
  have a: "\<forall>s \<in> set xs. s = t \<or> s_created_at s < s_created_at t"
    using Cons.prems(1) by simp
  have b: "case ?f x acc of None \<Rightarrow> True | Some b \<Rightarrow> b = t \<or> s_created_at b < s_created_at t"
    using x Cons.prems(2) by (auto split: option.splits)
  have c: "t \<in> set xs \<or> ?f x acc = Some t"
    using x Cons.prems(2,3) by (auto split: option.splits)
  from Cons.IH [OF a b c] show ?case by simp
qed

lemma last_set_unique_latest:
  assumes "t \<in> set (sets d)" and "s_workout_id t = w" and "s_exercise_id t = e"
    and "\<forall>s \<in> set (sets d). s_workout_id s = w \<and> s_exercise_id s = e \<and> s \<noteq> t
            \<longrightarrow> s_created_at s < s_created_at t"
  shows "last_set d w e = Some t"
  unfolding last_set_def
  using assms by (intro fold_latest_unique) (auto simp: pair_sets_def)

lemma pair_sets_set_number_update:
  "pair_sets (d\<lparr>sets := map (\<lambda>s. if P s then s\<lparr>set_number := n\<rparr> else s) (sets d)\<rparr>) w e
     = map (\<lambda>s. if P s then s\<lparr>set_number := n\<rparr> else s) (pair_sets d w e)"
  by (simp add: pair_sets_def filter_map comp_def if_distrib cong: if_cong)

lemma set_pair_sets:
  "set (pair_sets d w e) = {s \<in> set (sets d). s_workout_id s = w \<and> s_exercise_id s = e}"
  by (auto simp: pair_sets_def)

text \<open>
  C10. Let \<open>t\<close> be the most recent set of the pair \<open>(workout_id, exercise_id)\<close>: a set of
  the store with these two ids, created later than every other set with them. Then
  \<^verbatim>\<open>update_last_set_hr\<close> writes the heart rate into the \<^verbatim>\<open>set_number\<close> of \<open>t\<close> and changes
  nothing else; and if the heart rate exceeds the \<^verbatim>\<open>set_number\<close> of every other set with
  these two ids, the next \<^verbatim>\<open>add_set\<close> for the pair stores \<^verbatim>\<open>set_number = heart_rate + 1\<close>.
  Sets of other pairs do not count, whatever their numbers.
\<close>

theorem add_set_after_update_last_set_hr:
  assumes latest: "t \<in> set (sets d)" "s_workout_id t = w" "s_exercise_id t = e"
      "\<forall>s \<in> set (sets d). s_workout_id s = w \<and> s_exercise_id s = e \<and> s \<noteq> t
            \<longrightarrow> s_created_at s < s_created_at t"
    and others: "\<forall>s \<in> set (sets d). s_workout_id s = w \<and> s_exercise_id s = e
            \<and> s_id s \<noteq> s_id t \<longrightarrow> set_number s < hr"
    and a: "add_set (d\<lparr>sets := map (\<lambda>s. if s_id s = s_id t then s\<lparr>set_number := hr\<rparr> else s)
                                   (sets d)\<rparr>) now w e r wt = Inr (i, d2)"
  shows "update_last_set_hr d w e hr =
           Inr ((), d\<lparr>sets := map (\<lambda>s. if s_id s = s_id t then s\<lparr>set_number := hr\<rparr> else s)
                                  (sets d)\<rparr>)
         \<and> sets d2 = map (\<lambda>s. if s_id s = s_id t then s\<lparr>set_number := hr\<rparr> else s) (sets d)
                       @ [\<lparr>s_id = i, s_workout_id = w, s_exercise_id = e,
                           set_number = hr + 1, reps = r, weight = wt, s_created_at = now\<rparr>]"
proof -
  let ?upd = "\<lambda>s. if s_id s = s_id t then s\<lparr>set_number := hr\<rparr> else s"
  let ?d1 = "d\<lparr>sets := map ?upd (sets d)\<rparr>"
  have t: "last_set d w e = Some t"
    using latest by (rule last_set_unique_latest)
  then have u: "update_last_set_hr d w e hr = Inr ((), ?d1)"
    by (simp add: update_last_set_hr_def)
  have p1: "pair_sets ?d1 w e = map ?upd (pair_sets d w e)"
    by (rule pair_sets_set_number_update)
  have tp: "t \<in> set (pair_sets d w e)" using latest(1,2,3) by (simp add: set_pair_sets)
  have "t\<lparr>set_number := hr\<rparr> \<in> ?upd ` set (pair_sets d w e)"
    using tp by (intro image_eqI [where x = t]) simp_all
  then have "t\<lparr>set_number := hr\<rparr> \<in> set (pair_sets ?d1 w e)"
    by (simp add: p1)
  then have mem: "hr \<in> set_number ` set (pair_sets ?d1 w e)"
    by (intro image_eqI [where x = "t\<lparr>set_number := hr\<rparr>"]) simp_all
  have ne: "pair_sets ?d1 w e \<noteq> []" using mem by auto
  have le: "n \<le> hr" if "n \<in> set_number ` set (pair_sets ?d1 w e)" for n
  proof -
    from that obtain s where s: "s \<in> set (pair_sets ?d1 w e)" and n: "n = set_number s" by auto
    from s have "s \<in> ?upd ` set (pair_sets d w e)" by (simp add: p1)
    then obtain s0 where s0: "s0 \<in> set (pair_sets d w e)" "s = ?upd s0" by (elim imageE)
    show ?thesis
    proof (cases "s_id s0 = s_id t")
      case True
      with s0 n show ?thesis by simp
    next
      case False
      with s0 others have "set_number s0 < hr" by (simp add: set_pair_sets)
      with False s0 n show ?thesis by simp
    qed
  qed
  have "Max (set_number ` set (pair_sets ?d1 w e)) = hr"
    using mem le by (intro Max_eqI) auto
  with ne have "max_plus_one ?d1 w e = hr + 1" by (simp add: max_plus_one_def)
  with a have "sets d2 = map ?upd (sets d)
                       @ [\<lparr>s_id = i, s_workout_id = w, s_exercise_id = e,
                           set_number = hr + 1, reps = r, weight = wt, s_created_at = now\<rparr>]"
    by (auto simp: add_set_def Let_def next_set_number_max_plus_one split: if_splits)
  with u show ?thesis by simp
qed

text \<open>
  In the store with two runs: heart rate 152 goes into the second run (not into the first
  one, nor into the later set of the other exercise), and the next run is numbered 153
  although the other exercise holds number 500.
\<close>

theorem add_set_after_update_last_set_hr_witness:
  "map_sum id (\<lambda>(u, d1). map_sum id (\<lambda>(i, d2). map (\<lambda>s. (s_id s, set_number s)) (sets d2))
                            (add_set d1 400 1 2 25 22))
     (update_last_set_hr run_db 1 2 152)
   = Inr (Inr [(1, 140), (2, 152), (3, 500), (4, 153)])"
proof -
  let ?t = "\<lparr>s_id = 2, s_workout_id = 1, s_exercise_id = 2, set_number = 2,
               reps = 20, weight = 19, s_created_at = 200\<rparr>"
  let ?d1 = "run_db\<lparr>sets := map (\<lambda>s. if s_id s = s_id ?t then s\<lparr>set_number := 152\<rparr> else s)
                                   (sets run_db)\<rparr>"
  have l1: "?t \<in> set (sets run_db)" and l2: "s_workout_id ?t = 1" and l3: "s_exercise_id ?t = 2"
    and l4: "\<forall>s \<in> set (sets run_db). s_workout_id s = 1 \<and> s_exercise_id s = 2 \<and> s \<noteq> ?t
            \<longrightarrow> s_created_at s < s_created_at ?t"
    and o: "\<forall>s \<in> set (sets run_db). s_workout_id s = 1 \<and> s_exercise_id s = 2
            \<and> s_id s \<noteq> s_id ?t \<longrightarrow> set_number s < 152"
    by (simp_all add: run_db_def)
  obtain d2 where a: "add_set ?d1 400 1 2 25 22 = Inr (4, d2)"
    by (simp add: add_set_def run_db_def)
  from add_set_after_update_last_set_hr [OF l1 l2 l3 l4 o a]
  have u: "update_last_set_hr run_db 1 2 152 = Inr ((), ?d1)"
    and s: "map (\<lambda>s. (s_id s, set_number s)) (sets d2) = [(1, 140), (2, 152), (3, 500), (4, 153)]"
    by (simp_all add: run_db_def)
  from u a s show ?thesis by simp
qed

subsection \<open>Workout streak\<close>

lemma set_nonempty_workout_dates: "set (nonempty_workout_dates d) = workout_days d"
  by (auto simp: nonempty_workout_dates_def workout_days_def list_ex_iff)

lemma nonempty_workout_dates_desc: "sorted_wrt (>) (nonempty_workout_dates d)"
proof -
  let ?xs = "sort (remdups
       [workout_date w. w \<leftarrow> workouts d, list_ex (\<lambda>s. s_workout_id s = w_id w) (sets d)])"
  have "sorted_wrt (<) ?xs"
    by (simp add: strict_sorted_iff)
  then have "sorted_wrt (\<lambda>x y. y < x) (rev ?xs)"
    by (simp add: sorted_wrt_rev)
  then show ?thesis by (simp add: nonempty_workout_dates_def)
qed

lemma count_streak_run:
  assumes "sorted_wrt (>) ds" and "\<forall>x \<in> set ds. x \<le> e"
  shows "\<exists>k\<ge>0. count_streak ds e s = s + k
            \<and> (\<forall>i. 0 \<le> i \<and> i < k \<longrightarrow> e - i \<in> set ds) \<and> e - k \<notin> set ds"
  using assms
proof (induction ds arbitrary: e s)
  case Nil
  then show ?case by (intro exI [of _ 0]) simp
next
  case (Cons x xs)
  show ?case
  proof (cases "x = e")
    case True
    from Cons.prems have srt: "sorted_wrt (>) xs" and below: "\<forall>y \<in> set xs. y \<le> x - 1"
      by auto
    from Cons.IH [OF srt below, of "s + 1"]
    obtain k where k: "0 \<le> k" "count_streak xs (x - 1) (s + 1) = s + 1 + k"
      "\<forall>i. 0 \<le> i \<and> i < k \<longrightarrow> x - 1 - i \<in> set xs" "x - 1 - k \<notin> set xs"
      by blast
    have "\<forall>i. 0 \<le> i \<and> i < k + 1 \<longrightarrow> e - i \<in> set (x # xs)"
    proof (intro allI impI)
      fix i assume i: "0 \<le> i \<and> i < k + 1"
      show "e - i \<in> set (x # xs)"
      proof (cases "i = 0")
        case True
        with \<open>x = e\<close> show ?thesis by simp
      next
        case False
        with i have "0 \<le> i - 1 \<and> i - 1 < k" by simp
        with k(3) have "x - 1 - (i - 1) \<in> set xs" by blast
        with \<open>x = e\<close> show ?thesis by simp
      qed
    qed
    moreover have "e - (k + 1) \<notin> set (x # xs)"
      using k(1,4) True by (simp add: algebra_simps)
    moreover have "count_streak (x # xs) e s = s + (k + 1)"
      using True k(2) by simp
    ultimately show ?thesis using k(1) by (intro exI [of _ "k + 1"]) simp
  next
    case False
    with Cons.prems have "\<forall>y \<in> set (x # xs). y < e" by force
    then have "e \<notin> set (x # xs)" by blast
    with False show ?thesis by (intro exI [of _ 0]) simp
  qed
qed

text \<open>
  C6. \<^verbatim>\<open>get_workout_streak\<close> is 0 when no workout has a set, and 0 when the most recent
  day with a non-empty workout is neither today nor yesterday. Otherwise it is the length
  of the run of consecutive days that ends at that most recent day: it is at least 1,
  each of that many days counted back from the most recent one has a non-empty workout,
  and the day before the run has none. With non-empty workouts on 2024-01-01, 2024-01-02
  and 2024-01-03 it is 3 when today is 2024-01-03 and 0 when today is 2024-01-05.
\<close>

theorem get_workout_streak_consecutive:
  "(workout_days d = {} \<longrightarrow> get_workout_streak d today = 0)
   \<and> (workout_days d \<noteq> {} \<and> Max (workout_days d) \<noteq> today \<and> Max (workout_days d) \<noteq> today - 1
        \<longrightarrow> get_workout_streak d today = 0)
   \<and> (workout_days d \<noteq> {} \<and> (Max (workout_days d) = today \<or> Max (workout_days d) = today - 1)
        \<longrightarrow> 1 \<le> get_workout_streak d today
            \<and> (\<forall>i. 0 \<le> i \<and> i < get_workout_streak d today
                    \<longrightarrow> Max (workout_days d) - i \<in> workout_days d)
            \<and> Max (workout_days d) - get_workout_streak d today \<notin> workout_days d)
   \<and> get_workout_streak three_day_db (ymd 2024 1 3) = 3
   \<and> get_workout_streak three_day_db (ymd 2024 1 5) = 0"
proof -
  have empty: "get_workout_streak d today = 0" if "workout_days d = {}"
    using that set_nonempty_workout_dates [of d] by (simp add: get_workout_streak_def)
  have nonempty: "\<exists>m rest. nonempty_workout_dates d = m # rest \<and> m = Max (workout_days d)
                    \<and> (\<forall>y \<in> set rest. y \<le> m - 1) \<and> sorted_wrt (>) rest"
    if "workout_days d \<noteq> {}"
  proof -
    from that set_nonempty_workout_dates [of d]
    obtain m rest where mr: "nonempty_workout_dates d = m # rest"
      by (cases "nonempty_workout_dates d") auto
    with nonempty_workout_dates_desc [of d]
    have srt: "sorted_wrt (>) rest" and below: "\<forall>y \<in> set rest. y < m" by auto
    have "Max (set (m # rest)) = m"
      using below by (intro Max_eqI) (auto intro: less_imp_le)
    then have "m = Max (workout_days d)"
      using set_nonempty_workout_dates [of d] mr by simp
    with mr srt below show ?thesis by auto
  qed
  have stale: "get_workout_streak d today = 0"
    if "workout_days d \<noteq> {}" "Max (workout_days d) \<noteq> today" "Max (workout_days d) \<noteq> today - 1"
    using nonempty [OF that(1)] that(2,3) by (auto simp: get_workout_streak_def)
  have live: "1 \<le> get_workout_streak d today
            \<and> (\<forall>i. 0 \<le> i \<and> i < get_workout_streak d today
                    \<longrightarrow> Max (workout_days d) - i \<in> workout_days d)
            \<and> Max (workout_days d) - get_workout_streak d today \<notin> workout_days d"
    if ne: "workout_days d \<noteq> {}"
      and recent: "Max (workout_days d) = today \<or> Max (workout_days d) = today - 1"
  proof -
    from nonempty [OF ne] obtain m rest where mr: "nonempty_workout_dates d = m # rest"
      and m: "m = Max (workout_days d)" and below: "\<forall>y \<in> set rest. y \<le> m - 1"
      and srt: "sorted_wrt (>) rest" by blast
    from count_streak_run [OF srt below, of 1]
    obtain k where k: "0 \<le> k" "count_streak rest (m - 1) 1 = 1 + k"
      "\<forall>i. 0 \<le> i \<and> i < k \<longrightarrow> m - 1 - i \<in> set rest" "m - 1 - k \<notin> set rest"
      by blast
    have r: "get_workout_streak d today = 1 + k"
      using mr m recent k(2) by (auto simp: get_workout_streak_def)
    have days: "workout_days d = insert m (set rest)"
      using set_nonempty_workout_dates [of d] mr by simp
    have "\<forall>i. 0 \<le> i \<and> i < 1 + k \<longrightarrow> m - i \<in> workout_days d"
    proof (intro allI impI)
      fix i assume i: "0 \<le> i \<and> i < 1 + k"
      show "m - i \<in> workout_days d"
      proof (cases "i = 0")
        case True
        then show ?thesis by (simp add: days)
      next
        case False
        with i have "0 \<le> i - 1 \<and> i - 1 < k" by simp
        with k(3) have "m - 1 - (i - 1) \<in> set rest" by blast
        then show ?thesis by (simp add: days)
      qed
    qed
    moreover have "m - (1 + k) \<notin> workout_days d"
      using k(1,4) by (simp add: days algebra_simps)
    ultimately show ?thesis using r k(1) m by simp
  qed
  have ex3: "get_workout_streak three_day_db (ymd 2024 1 3) = 3"
    by (simp add: get_workout_streak_def nonempty_workout_dates_def example_defs)
  have ex5: "get_workout_streak three_day_db (ymd 2024 1 5) = 0"
    by (simp add: get_workout_streak_def nonempty_workout_dates_def example_defs)
  from empty stale live ex3 ex5 show ?thesis by blast
qed

theorem get_workout_streak_consecutive_witness:
  "get_workout_streak three_day_db (ymd 2024 1 4) = 3
   \<and> get_workout_streak fresh_db (ymd 2024 1 3) = 0
   \<and> get_workout_streak three_day_db (ymd 2024 1 5) = 0"
proof -
  have days: "workout_days three_day_db = {738886, 738887, 738888}"
    unfolding set_nonempty_workout_dates [symmetric]
    by (auto simp: nonempty_workout_dates_def example_defs)
  have mx: "Max (workout_days three_day_db) = 738888"
    by (simp add: days)
  have none: "workout_days fresh_db = {}"
    unfolding set_nonempty_workout_dates [symmetric]
    by (simp add: nonempty_workout_dates_def example_defs)
  have t4: "ymd 2024 1 4 = 738889" and t5: "ymd 2024 1 5 = 738890"
    by (simp_all add: example_defs)
  let ?r = "get_workout_streak three_day_db (ymd 2024 1 4)"
  from get_workout_streak_consecutive [of three_day_db "ymd 2024 1 4"]
  have r: "1 \<le> ?r" "\<forall>i. 0 \<le> i \<and> i < ?r \<longrightarrow> 738888 - i \<in> {738886, 738887, 738888::int}"
    "738888 - ?r \<notin> {738886, 738887, 738888::int}"
    by (simp_all add: days mx t4)
  have "?r < 4"
  proof (rule ccontr)
    assume "\<not> ?r < 4"
    then have "0 \<le> (3::int) \<and> 3 < ?r" by simp
    with r(2) have "738888 - 3 \<in> {738886, 738887, 738888::int}" by blast
    then show False by simp
  qed
  with r(1,3) have "?r = 3" by (cases "?r = 1"; cases "?r = 2") auto
  moreover have "get_workout_streak fresh_db (ymd 2024 1 3) = 0"
    using get_workout_streak_consecutive [of fresh_db "ymd 2024 1 3"] none by simp
  moreover have "get_workout_streak three_day_db (ymd 2024 1 5) = 0"
    using get_workout_streak_consecutive [of three_day_db "ymd 2024 1 5"]
    by (simp add: days mx t5)
  ultimately show ?thesis by simp
qed

subsection \<open>Transactions of the strength submit flow\<close>

text \<open>
  C7, as stated, fails: when the first \<^verbatim>\<open>log_pr\<close> meets a storage failure, the flow ends
  with the Set row committed and no PersonalRecord row, although both PR flags of the set
  are true.
\<close>

theorem strength_submit_partial_counterexample:
  "fst (strength_submit \<lparr>add_set_fails = False, check_fails = False,
                          log_weight_fails = True, log_1rm_fails = False\<rparr>
          fresh_db 500 (ymd 2024 1 3) 1 1 10 135) = Aborted StorageError
   \<and> map reps (sets (snd (strength_submit \<lparr>add_set_fails = False, check_fails = False,
                          log_weight_fails = True, log_1rm_fails = False\<rparr>
          fresh_db 500 (ymd 2024 1 3) 1 1 10 135))) = [10]
   \<and> personal_records (snd (strength_submit \<lparr>add_set_fails = False, check_fails = False,
                          log_weight_fails = True, log_1rm_fails = False\<rparr>
          fresh_db 500 (ymd 2024 1 3) 1 1 10 135)) = []
   \<and> is_weight_pr (check_if_pr fresh_db 1 135 10 (ymd 2024 1 3))
   \<and> is_1rm_pr (check_if_pr fresh_db 1 135 10 (ymd 2024 1 3))"
  by (simp add: strength_submit_def validate_set_input_def get_db_def add_set_def
        next_set_number_def pair_sets_def check_if_pr_def prior_sets_def truthy_or_def
        log_pr_def calculate_estimated_1rm_def example_defs)

lemma add_set_frame:
  assumes "add_set d now w e r wt = Inr (i, d1)"
  shows "exercises d1 = exercises d" and "personal_records d1 = personal_records d"
    and "e \<in> set (map ex_id (exercises d))"
  using assms by (auto simp: add_set_def Let_def split: if_splits)

lemma log_pr_frame:
  assumes "e \<in> set (map ex_id (exercises d))"
  shows "\<exists>d'. log_pr d e ty v dt ctx = Inr ((), d') \<and> sets d' = sets d
           \<and> exercises d' = exercises d
           \<and> map pr_type (personal_records d') = map pr_type (personal_records d) @ [ty]"
  using assms by (simp add: log_pr_def)

lemma get_db_ok:
  "body d = Inr (r, d') \<Longrightarrow> get_db False body d = (Inr r, d')"
  by (simp add: get_db_def)

lemma get_db_fails: "get_db True body d = (Inl StorageError, d)"
  by (simp add: get_db_def)

text \<open>
  C7, amended. Every database call of the strength submit is a transaction of its own.
  For a valid set on an existing workout and exercise: when the \<^verbatim>\<open>add_set\<close> transaction
  fails, nothing is written; once it has committed, the Set row stays in the store
  whatever happens afterwards, and the PR log gains a row for a true flag exactly when no
  transaction of the flow failed up to and including the \<^verbatim>\<open>log_pr\<close> of that flag.
\<close>

theorem strength_submit_transactions:
  assumes valid: "fst (validate_set_input r w)"
    and add: "add_set d now workout_id exercise_id r w = Inr (i, d1)"
  shows "(add_set_fails f \<longrightarrow>
            strength_submit f d now today workout_id exercise_id r w = (Aborted StorageError, d))
     \<and> (\<not> add_set_fails f \<longrightarrow>
            sets (snd (strength_submit f d now today workout_id exercise_id r w)) = sets d1
          \<and> map pr_type (personal_records
                 (snd (strength_submit f d now today workout_id exercise_id r w)))
              = map pr_type (personal_records d)
                @ (if \<not> check_fails f \<and> is_weight_pr (check_if_pr d1 exercise_id w r today)
                      \<and> \<not> log_weight_fails f
                   then [''weight''] else [])
                @ (if \<not> check_fails f \<and> is_1rm_pr (check_if_pr d1 exercise_id w r today)
                      \<and> \<not> log_1rm_fails f
                      \<and> (is_weight_pr (check_if_pr d1 exercise_id w r today)
                            \<longrightarrow> \<not> log_weight_fails f)
                   then [''1rm''] else []))"
proof -
  let ?pr = "check_if_pr d1 exercise_id w r today"
  let ?S = "strength_submit f d now today workout_id exercise_id r w"
  obtain msg where v: "validate_set_input r w = (True, msg)"
    using valid by (cases "validate_set_input r w") simp
  have ex1: "exercise_id \<in> set (map ex_id (exercises d1))"
    using add_set_frame [OF add] by simp
  obtain dw where dw: "log_pr d1 exercise_id ''weight'' w today (Some (RepsContext r)) = Inr ((), dw)"
    "sets dw = sets d1" "exercises dw = exercises d1"
    "map pr_type (personal_records dw) = map pr_type (personal_records d1) @ [''weight'']"
    using log_pr_frame [OF ex1] by blast
  have exw: "exercise_id \<in> set (map ex_id (exercises dw))"
    using ex1 dw(3) by simp
  obtain d11 where d11: "log_pr d1 exercise_id ''1rm'' (calculate_estimated_1rm w r) today
                           (Some (WeightRepsContext w r)) = Inr ((), d11)"
    "sets d11 = sets d1"
    "map pr_type (personal_records d11) = map pr_type (personal_records d1) @ [''1rm'']"
    using log_pr_frame [OF ex1] by blast
  obtain dw1 where dw1: "log_pr dw exercise_id ''1rm'' (calculate_estimated_1rm w r) today
                           (Some (WeightRepsContext w r)) = Inr ((), dw1)"
    "sets dw1 = sets dw"
    "map pr_type (personal_records dw1) = map pr_type (personal_records dw) @ [''1rm'']"
    using log_pr_frame [OF exw] by blast
  have prs: "personal_records d1 = personal_records d"
    using add_set_frame [OF add] by simp
  have a: "?S = (Aborted StorageError, d)" if "add_set_fails f"
    using that v by (simp add: strength_submit_def get_db_def)
  have b: "sets (snd ?S) = sets d1
          \<and> map pr_type (personal_records (snd ?S))
              = map pr_type (personal_records d)
                @ (if \<not> check_fails f \<and> is_weight_pr ?pr \<and> \<not> log_weight_fails f
                   then [''weight''] else [])
                @ (if \<not> check_fails f \<and> is_1rm_pr ?pr \<and> \<not> log_1rm_fails f
                      \<and> (is_weight_pr ?pr \<longrightarrow> \<not> log_weight_fails f)
                   then [''1rm''] else [])"
    if "\<not> add_set_fails f"
    using that v add dw d11 dw1 prs
    by (simp add: strength_submit_def get_db_def)
  from a b show ?thesis by blast
qed

theorem strength_submit_transactions_witness:
  "sets (snd (strength_submit \<lparr>add_set_fails = False, check_fails = False,
                          log_weight_fails = True, log_1rm_fails = False\<rparr>
          fresh_db 500 (ymd 2024 1 3) 1 1 10 135))
     = [\<lparr>s_id = 1, s_workout_id = 1, s_exercise_id = 1, set_number = 1,
         reps = 10, weight = 135, s_created_at = 500\<rparr>]
   \<and> map pr_type (personal_records (snd (strength_submit \<lparr>add_set_fails = False,
          check_fails = False, log_weight_fails = True, log_1rm_fails = False\<rparr>
          fresh_db 500 (ymd 2024 1 3) 1 1 10 135))) = []
   \<and> map pr_type (personal_records (snd (strength_submit \<lparr>add_set_fails = False,
          check_fails = False, log_weight_fails = False, log_1rm_fails = False\<rparr>
          fresh_db 500 (ymd 2024 1 3) 1 1 10 135))) = [''weight'', ''1rm'']
   \<and> strength_submit \<lparr>add_set_fails = True, check_fails = False, log_weight_fails = False,
          log_1rm_fails = False\<rparr> fresh_db 500 (ymd 2024 1 3) 1 1 10 135
       = (Aborted StorageError, fresh_db)"
proof -
  let ?d1 = "fresh_db\<lparr>sets := [\<lparr>s_id = 1, s_workout_id = 1, s_exercise_id = 1, set_number = 1,
         reps = 10, weight = 135, s_created_at = 500\<rparr>], next_set_id := 2\<rparr>"
  have v: "fst (validate_set_input 10 135)"
    by (simp add: validate_set_input_def)
  have a: "add_set fresh_db 500 1 1 10 135 = Inr (1, ?d1)"
    by (simp add: add_set_def next_set_number_def pair_sets_def fresh_db_def)
  have pr: "is_weight_pr (check_if_pr ?d1 1 135 10 (ymd 2024 1 3))"
    "is_1rm_pr (check_if_pr ?d1 1 135 10 (ymd 2024 1 3))"
    by (simp_all add: check_if_pr_def prior_sets_def truthy_or_def example_defs)
  note inst = strength_submit_transactions [OF v a, of _ "ymd 2024 1 3"]
  from inst [of "\<lparr>add_set_fails = False, check_fails = False,
                          log_weight_fails = True, log_1rm_fails = False\<rparr>"]
       inst [of "\<lparr>add_set_fails = False, check_fails = False,
                          log_weight_fails = False, log_1rm_fails = False\<rparr>"]
       inst [of "\<lparr>add_set_fails = True, check_fails = False,
                          log_weight_fails = False, log_1rm_fails = False\<rparr>"]
       pr
  show ?thesis by (simp add: fresh_db_def)
qed

end
